theory Spec2Isabelle
  imports Complex_Main "HOL-Library.AList"
begin

section \<open>The WebSocket client of the dashboard (\<open>ws-client\<close>, class \<open>WsClient\<close>)\<close>

text \<open>
  The class keeps one transport handle, a registry of listeners, a table of pending
  acknowledgements and a backoff delay. Its methods and the four handlers it attaches to
  every socket are embedded below as functions on an explicit \<open>world\<close>: the fields of the
  object together with the parts of the JavaScript platform the methods act on (the timers
  of the event loop, the promises handed out by \<open>send\<close>, the console, the objects owned by
  callers). Callbacks are identified by numbers; what a callback does when it is called
  is a parameter of the model.
\<close>

subsection \<open>JavaScript values\<close>

text \<open>
  Numbers are rationals: IEEE rounding is outside the model, which is exact on the
  integers and on the products that occur in the backoff examples. \<open>JError m\<close> is an
  \<open>Error\<close> object with message \<open>m\<close>. An object is the list of its own enumerable
  properties; the first pair for a name is the property.
\<close>

datatype jsval =
    Undefined
  | JNull
  | JBool bool
  | JNum rat
  | JStr string
  | JArr "jsval list"
  | JObj "(string \<times> jsval) list"
  | JError string

text \<open>The truth value of \<open>if (v)\<close>, \<open>v && ...\<close> and \<open>v || ...\<close>.\<close>

fun truthy :: "jsval \<Rightarrow> bool" where
  "truthy Undefined = False"
| "truthy JNull = False"
| "truthy (JBool b) = b"
| "truthy (JNum n) = (n \<noteq> 0)"
| "truthy (JStr s) = (s \<noteq> [])"
| "truthy (JArr xs) = True"
| "truthy (JObj kvs) = True"
| "truthy (JError m) = True"

text \<open>
  Arrays, objects and errors are compared by reference (\<open>===\<close>, and the keys of a
  \<open>Map\<close>); the other values by content.
\<close>

fun is_reference :: "jsval \<Rightarrow> bool" where
  "is_reference (JArr xs) = True"
| "is_reference (JObj kvs) = True"
| "is_reference (JError m) = True"
| "is_reference v = False"

text \<open>
  \<open>js_field k v\<close> reads the property \<open>k\<close> in the destructuring
  \<open>const { type, payload, request_id } = data\<close>, for a \<open>data\<close> that is neither \<open>null\<close>
  nor \<open>undefined\<close>: none of the three names is a property of a string, a number, a
  boolean or an array.
\<close>

definition js_field :: "string \<Rightarrow> jsval \<Rightarrow> jsval" where
  "js_field k v =
     (case v of
        JObj kvs \<Rightarrow> (case map_of kvs k of Some x \<Rightarrow> x | None \<Rightarrow> Undefined)
      | _ \<Rightarrow> Undefined)"

text \<open>\<open>String(n)\<close> for a number that is a natural number below \<open>10^21\<close>: its decimal digits.\<close>

definition digit_char :: "nat \<Rightarrow> char" where
  "digit_char d = ''0123456789'' ! d"

fun String_of :: "nat \<Rightarrow> string" where
  "String_of n = (if n < 10 then [digit_char n] else String_of (n div 10) @ [digit_char (n mod 10)])"

declare String_of.simps [simp del]

text \<open>
  The own enumerable properties copied by the spread \<open>{ ...obj }\<close>: those of an object,
  the indexed elements of an array, the indexed characters of a string, and nothing for
  any other value.
\<close>

fun spread :: "jsval \<Rightarrow> (string \<times> jsval) list" where
  "spread (JObj kvs) = kvs"
| "spread (JArr xs) = zip (map String_of [0..<length xs]) xs"
| "spread (JStr s) = zip (map String_of [0..<length s]) (map (\<lambda>c. JStr [c]) s)"
| "spread v = []"

text \<open>
  \<open>n++\<close> on a number holding a natural number: doubles count exactly up to \<open>2^53\<close>,
  and \<open>2^53 + 1\<close> rounds back to \<open>2^53\<close>, so a counter that starts at 1 stays there.
\<close>

definition js_incr :: "nat \<Rightarrow> nat" where
  "js_incr n = (if n < 2 ^ 53 then n + 1 else n)"

subsection \<open>The platform: sockets, timers, promises\<close>

datatype ready_state = CONNECTING | OPEN | CLOSING | CLOSED

text \<open>
  A \<open>WebSocket\<close>. \<open>outbox\<close> lists the frames handed to its \<open>send\<close>, each as the object
  that \<open>JSON.stringify\<close> was given.
\<close>

record websocket =
  ws_url :: string
  readyState :: ready_state
  outbox :: "jsval list"

text \<open>
  \<open>ws.send(json)\<close> on an open socket. Both call sites test \<open>readyState === OPEN\<close> first.
\<close>

definition transmit :: "jsval \<Rightarrow> websocket \<Rightarrow> websocket" where
  "transmit frame sock = sock\<lparr>outbox := outbox sock @ [frame]\<rparr>"

text \<open>\<open>ws.close()\<close> starts the closing handshake unless the socket is already closing or closed.\<close>

definition ws_close :: "websocket \<Rightarrow> websocket" where
  "ws_close sock =
     (if readyState sock = CLOSING \<or> readyState sock = CLOSED then sock
      else sock\<lparr>readyState := CLOSING\<rparr>)"

text \<open>
  What a timer runs when it fires: the three closures the class passes to
  \<open>setTimeout\<close> and \<open>setInterval\<close>. \<open>AckTimeout request_id p\<close> is the closure
  created by \<open>send\<close> for the promise \<open>p\<close>.
\<close>

datatype timer_action = Reconnect | AckTimeout string nat | Heartbeat

datatype timer = Timeout rat timer_action | Interval rat timer_action

datatype settlement = Pending | Fulfilled jsval | Rejected jsval

text \<open>The promise returned by \<open>send\<close>: already settled, or the promise \<open>p\<close> of the world.\<close>

datatype promise = Resolved jsval | RejectedWith jsval | Awaiting nat

text \<open>An entry of \<open>_pendingAcks\<close>: the timer its \<open>resolve\<close> clears and the promise it resolves.\<close>

record resolver =
  res_timer :: nat
  res_promise :: nat

text \<open>One call of a callback, with the arguments it was given.\<close>

datatype call = Called nat "jsval list"

subsection \<open>The object and its world\<close>

text \<open>
  The fields of \<open>WsClient\<close>. A \<open>Set\<close> of callbacks is the list of its members in
  insertion order, which is the order \<open>Array.from\<close> yields; a \<open>Map\<close> that is never
  iterated is a partial function on its keys. A timer handle is a positive integer, so
  \<open>if (this._heartbeatTimer)\<close> tests for \<open>null\<close>.
\<close>

record WsClient =
  url :: string
  ws :: "websocket option"
  listeners :: "jsval \<rightharpoonup> nat list"
  anyListeners :: "nat list"
  nextRequestId :: nat
  pendingAcks :: "string \<rightharpoonup> resolver"
  reconnectDelay :: rat
  maxReconnectDelay :: rat
  backoffFactor :: rat
  heartbeatInterval :: rat
  heartbeatTimer :: "nat option"
  shouldReconnect :: bool

text \<open>
  The world adds the platform state: the timers that are set, the promises created by
  \<open>send\<close>, the objects owned by callers (\<open>send\<close> is given the address of the command),
  the clock read by \<open>Date.now()\<close>, the sockets the object no longer refers to, the
  lines written by \<open>console.error\<close> and the calls made to callbacks so far.
\<close>

record world = WsClient +
  timers :: "nat \<rightharpoonup> timer"
  nextTimer :: nat
  promises :: "nat \<rightharpoonup> settlement"
  nextPromise :: nat
  store :: "nat \<Rightarrow> jsval"
  clock :: nat
  released :: "websocket list"
  console :: "(string \<times> jsval) list"
  trace :: "call list"

subsection \<open>Construction\<close>

record opts =
  opt_reconnectDelay :: "rat option"
  opt_maxReconnectDelay :: "rat option"
  opt_backoffFactor :: "rat option"
  opt_heartbeatInterval :: "rat option"

text \<open>\<open>opts.x || d\<close>: the default replaces an absent option and the falsy number \<open>0\<close>.\<close>

definition or_default :: "rat option \<Rightarrow> rat \<Rightarrow> rat" where
  "or_default x d = (case x of None \<Rightarrow> d | Some v \<Rightarrow> if v = 0 then d else v)"

text \<open>\<open>new WsClient(url, opts)\<close>, in a platform with no timer and no promise yet.\<close>

definition constructor :: "string \<Rightarrow> opts \<Rightarrow> (nat \<Rightarrow> jsval) \<Rightarrow> world" where
  "constructor u opts objects =
     \<lparr> url = u,
       ws = None,
       listeners = Map.empty,
       anyListeners = [],
       nextRequestId = 1,
       pendingAcks = Map.empty,
       reconnectDelay = or_default (opt_reconnectDelay opts) 1000,
       maxReconnectDelay = or_default (opt_maxReconnectDelay opts) 30000,
       backoffFactor = or_default (opt_backoffFactor opts) (16 / 10),
       heartbeatInterval = or_default (opt_heartbeatInterval opts) 20000,
       heartbeatTimer = None,
       shouldReconnect = True,
       timers = Map.empty,
       nextTimer = 1,
       promises = Map.empty,
       nextPromise = 0,
       store = objects,
       clock = 0,
       released = [],
       console = [],
       trace = [] \<rparr>"

subsection \<open>Subscribing: \<open>on\<close> and \<open>off\<close>\<close>

definition set_add :: "nat \<Rightarrow> nat list \<Rightarrow> nat list" where
  "set_add cb s = (if cb \<in> set s then s else s @ [cb])"

definition set_delete :: "nat \<Rightarrow> nat list \<Rightarrow> nat list" where
  "set_delete cb s = removeAll cb s"

text \<open>
  Event types are the strings the callers pass; a key that is an object would be compared
  by reference, which the registry of the model does not do.
\<close>

definition on :: "jsval \<Rightarrow> nat \<Rightarrow> world \<Rightarrow> world" where
  "on eventType cb w =
     (if eventType = JStr ''*'' then w\<lparr>anyListeners := set_add cb (anyListeners w)\<rparr>
      else
        let s = (case listeners w eventType of None \<Rightarrow> [] | Some s \<Rightarrow> s)
        in w\<lparr>listeners := (listeners w)(eventType \<mapsto> set_add cb s)\<rparr>)"

definition off :: "jsval \<Rightarrow> nat \<Rightarrow> world \<Rightarrow> world" where
  "off eventType cb w =
     (if eventType = JStr ''*'' then w\<lparr>anyListeners := set_delete cb (anyListeners w)\<rparr>
      else
        case listeners w eventType of
          None \<Rightarrow> w
        | Some s \<Rightarrow> w\<lparr>listeners := (listeners w)(eventType \<mapsto> set_delete cb s)\<rparr>)"

subsection \<open>Connecting, the heartbeat, disconnecting\<close>

text \<open>
  \<open>this.ws = v\<close>: a socket that the field referred to lives on in the platform, with its
  handlers attached.
\<close>

definition assign_ws :: "websocket option \<Rightarrow> world \<Rightarrow> world" where
  "assign_ws v w =
     (case ws w of
        None \<Rightarrow> w\<lparr>ws := v\<rparr>
      | Some old \<Rightarrow> w\<lparr>released := released w @ [old], ws := v\<rparr>)"

definition connectOnce :: "world \<Rightarrow> world" where
  "connectOnce w =
     assign_ws (Some \<lparr>ws_url = url w, readyState = CONNECTING, outbox = []\<rparr>) w"

definition connect :: "world \<Rightarrow> world" where
  "connect w =
     (case ws w of
        Some sock \<Rightarrow> w
      | None \<Rightarrow> connectOnce (w\<lparr>shouldReconnect := True\<rparr>))"

definition stopHeartbeat :: "world \<Rightarrow> world" where
  "stopHeartbeat w =
     (case heartbeatTimer w of
        None \<Rightarrow> w
      | Some t \<Rightarrow> w\<lparr>timers := (timers w)(t := None), heartbeatTimer := None\<rparr>)"

definition startHeartbeat :: "world \<Rightarrow> world" where
  "startHeartbeat w =
     (let w1 = stopHeartbeat w; t = nextTimer w1
      in w1\<lparr>timers := (timers w1)(t \<mapsto> Interval (heartbeatInterval w1) Heartbeat),
             nextTimer := Suc t,
             heartbeatTimer := Some t\<rparr>)"

text \<open>The body of the interval: a ping, if the socket is open when the timer fires.\<close>

definition heartbeat_tick :: "world \<Rightarrow> world" where
  "heartbeat_tick w =
     (case ws w of
        None \<Rightarrow> w
      | Some sock \<Rightarrow>
          if readyState sock = OPEN
          then w\<lparr>ws := Some (transmit
                    (JObj [(''type'', JStr ''ping''), (''ts'', JNum (of_nat (clock w)))]) sock)\<rparr>
          else w)"

definition disconnect :: "world \<Rightarrow> world" where
  "disconnect w =
     (let w1 = w\<lparr>shouldReconnect := False\<rparr>;
          w2 = (case ws w1 of
                  None \<Rightarrow> w1
                | Some sock \<Rightarrow> assign_ws None (w1\<lparr>ws := Some (ws_close sock)\<rparr>))
      in stopHeartbeat w2)"

subsection \<open>Sending\<close>

record send_opts =
  awaitAck :: "bool option"
  timeout :: "rat option"

text \<open>\<open>setTimeout(f, d)\<close>: the handle, and the world with the timer set.\<close>

definition set_timeout :: "timer_action \<Rightarrow> rat \<Rightarrow> world \<Rightarrow> nat \<times> world" where
  "set_timeout f d w =
     (nextTimer w, w\<lparr>timers := (timers w)(nextTimer w \<mapsto> Timeout d f), nextTimer := Suc (nextTimer w)\<rparr>)"

definition clear_timeout :: "nat \<Rightarrow> world \<Rightarrow> world" where
  "clear_timeout t w = w\<lparr>timers := (timers w)(t := None)\<rparr>"

definition new_promise :: "world \<Rightarrow> nat \<times> world" where
  "new_promise w =
     (nextPromise w, w\<lparr>promises := (promises w)(nextPromise w \<mapsto> Pending), nextPromise := Suc (nextPromise w)\<rparr>)"

text \<open>\<open>resolve\<close> and \<open>reject\<close> of a promise act on a pending promise only.\<close>

definition settle :: "nat \<Rightarrow> settlement \<Rightarrow> world \<Rightarrow> world" where
  "settle p s w =
     (case promises w p of
        Some Pending \<Rightarrow> w\<lparr>promises := (promises w)(p \<mapsto> s)\<rparr>
      | _ \<Rightarrow> w)"

text \<open>
  \<open>send(obj, { awaitAck = false, timeout = 5000 } = {})\<close>, with \<open>obj\<close> the object at the
  address \<open>a\<close> of the store.
\<close>

definition send :: "nat \<Rightarrow> send_opts \<Rightarrow> world \<Rightarrow> promise \<times> world" where
  "send a options w =
     (case ws w of
        None \<Rightarrow> (RejectedWith (JError ''WebSocket is not open''), w)
      | Some sock \<Rightarrow>
          if readyState sock \<noteq> OPEN then (RejectedWith (JError ''WebSocket is not open''), w)
          else
            let request_id = String_of (nextRequestId w);
                w1 = w\<lparr>nextRequestId := js_incr (nextRequestId w)\<rparr>;
                packet = JObj (AList.update ''request_id'' (JStr request_id) (spread (store w1 a)));
                w2 = w1\<lparr>ws := Some (transmit packet sock)\<rparr>
            in if \<not> (case awaitAck options of None \<Rightarrow> False | Some b \<Rightarrow> b)
               then (Resolved Undefined, w2)
               else
                 let (p, w3) = new_promise w2;
                     (timer, w4) = set_timeout (AckTimeout request_id p)
                                     (case timeout options of None \<Rightarrow> 5000 | Some d \<Rightarrow> d) w3
                 in (Awaiting p,
                     w4\<lparr>pendingAcks := (pendingAcks w4)
                          (request_id \<mapsto> \<lparr>res_timer = timer, res_promise = p\<rparr>)\<rparr>))"

subsection \<open>Callbacks\<close>

text \<open>
  A callback may use the object while it runs. Its behaviour is, for the arguments of
  the call and the world at the call, the list of methods it calls and the exception
  it then throws, if any.
\<close>

datatype action =
    CallOn jsval nat
  | CallOff jsval nat
  | CallSend nat send_opts
  | CallConnect
  | CallDisconnect

type_synonym behaviour = "nat \<Rightarrow> jsval list \<Rightarrow> world \<Rightarrow> action list \<times> jsval option"

fun run_action :: "action \<Rightarrow> world \<Rightarrow> world" where
  "run_action (CallOn eventType cb) w = on eventType cb w"
| "run_action (CallOff eventType cb) w = off eventType cb w"
| "run_action (CallSend a options) w = snd (send a options w)"
| "run_action CallConnect w = connect w"
| "run_action CallDisconnect w = disconnect w"

text \<open>How a piece of code completes: normally, or by throwing a value.\<close>

datatype completion = Done world | Thrown jsval world

fun world_of :: "completion \<Rightarrow> world" where
  "world_of (Done w) = w"
| "world_of (Thrown e w) = w"

fun is_Done :: "completion \<Rightarrow> bool" where
  "is_Done (Done w) = True"
| "is_Done (Thrown e w) = False"

text \<open>\<open>a; b\<close> and \<open>try { a } catch (e) { h }\<close>.\<close>

definition seq :: "(world \<Rightarrow> completion) \<Rightarrow> (world \<Rightarrow> completion) \<Rightarrow> world \<Rightarrow> completion" where
  "seq a b w = (case a w of Done w1 \<Rightarrow> b w1 | Thrown e w1 \<Rightarrow> Thrown e w1)"

definition try_catch ::
  "(world \<Rightarrow> completion) \<Rightarrow> (jsval \<Rightarrow> world \<Rightarrow> completion) \<Rightarrow> world \<Rightarrow> completion" where
  "try_catch a h w = (case a w of Done w1 \<Rightarrow> Done w1 | Thrown e w1 \<Rightarrow> h e w1)"

definition call_cb :: "behaviour \<Rightarrow> nat \<Rightarrow> jsval list \<Rightarrow> world \<Rightarrow> completion" where
  "call_cb B cb args w =
     (let (acts, exn) = B cb args w;
          w1 = fold run_action acts (w\<lparr>trace := trace w @ [Called cb args]\<rparr>)
      in case exn of None \<Rightarrow> Done w1 | Some e \<Rightarrow> Thrown e w1)"

definition console_error :: "string \<Rightarrow> jsval \<Rightarrow> world \<Rightarrow> completion" where
  "console_error label e w = Done (w\<lparr>console := console w @ [(label, e)]\<rparr>)"

subsection \<open>Emitting\<close>

text \<open>
  The loop \<open>for (const cb of Array.from(s)) { try { cb(...) } catch (e) { console.error(...) } }\<close>
  over the members \<open>cbs\<close> that \<open>Array.from\<close> copied.
\<close>

fun call_each :: "behaviour \<Rightarrow> string \<Rightarrow> nat list \<Rightarrow> jsval list \<Rightarrow> world \<Rightarrow> completion" where
  "call_each B label [] args w = Done w"
| "call_each B label (cb # cbs) args w =
     seq (try_catch (call_cb B cb args) (console_error label)) (call_each B label cbs args) w"

text \<open>
  \<open>this._listeners.get(eventType)\<close>: an event type that is an object decoded from a frame
  is a new reference and has no entry.
\<close>

definition listeners_get :: "world \<Rightarrow> jsval \<Rightarrow> nat list option" where
  "listeners_get w eventType = (if is_reference eventType then None else listeners w eventType)"

definition emit_listeners :: "behaviour \<Rightarrow> jsval \<Rightarrow> jsval \<Rightarrow> jsval \<Rightarrow> world \<Rightarrow> completion" where
  "emit_listeners B eventType payload full w =
     (case listeners_get w eventType of
        None \<Rightarrow> Done w
      | Some s \<Rightarrow> call_each B ''listener error'' s [payload, full] w)"

definition emit_any :: "behaviour \<Rightarrow> jsval \<Rightarrow> jsval \<Rightarrow> jsval \<Rightarrow> world \<Rightarrow> completion" where
  "emit_any B eventType payload full w =
     call_each B ''any-listener error'' (anyListeners w) [eventType, payload, full] w"

definition emit :: "behaviour \<Rightarrow> jsval \<Rightarrow> jsval \<Rightarrow> jsval \<Rightarrow> world \<Rightarrow> completion" where
  "emit B eventType payload full =
     seq (emit_listeners B eventType payload full) (emit_any B eventType payload full)"

subsection \<open>The handlers of a socket\<close>

definition on_open :: "behaviour \<Rightarrow> world \<Rightarrow> completion" where
  "on_open B w =
     seq (emit B (JStr ''open'') Undefined Undefined)
         (\<lambda>w1. Done (startHeartbeat w1))
         (w\<lparr>reconnectDelay := 1000\<rparr>)"

definition on_close :: "behaviour \<Rightarrow> jsval \<Rightarrow> world \<Rightarrow> completion" where
  "on_close B ev w =
     seq (emit B (JStr ''close'') ev Undefined)
         (\<lambda>w1. let w2 = assign_ws None (stopHeartbeat w1)
               in if shouldReconnect w2
                  then let (t, w3) = set_timeout Reconnect (reconnectDelay w2) w2
                       in Done (w3\<lparr>reconnectDelay :=
                                  min (reconnectDelay w3 * backoffFactor w3) (maxReconnectDelay w3)\<rparr>)
                  else Done w2)
         w"

definition on_error :: "behaviour \<Rightarrow> jsval \<Rightarrow> world \<Rightarrow> completion" where
  "on_error B err w = emit B (JStr ''error'') err Undefined w"

text \<open>
  A message event: \<open>JSON.parse(msg.data)\<close> either throws or returns the decoded value.
\<close>

datatype message = Malformed jsval | Parsed jsval

definition pendingAcks_get :: "world \<Rightarrow> jsval \<Rightarrow> resolver option" where
  "pendingAcks_get w k = (case k of JStr s \<Rightarrow> pendingAcks w s | _ \<Rightarrow> None)"

definition pendingAcks_delete :: "jsval \<Rightarrow> world \<Rightarrow> world" where
  "pendingAcks_delete k w =
     (case k of JStr s \<Rightarrow> w\<lparr>pendingAcks := (pendingAcks w)(s := None)\<rparr> | _ \<Rightarrow> w)"

text \<open>\<open>resolver.resolve(payload)\<close>: the closure stored by \<open>send\<close>.\<close>

definition resolver_resolve :: "resolver \<Rightarrow> jsval \<Rightarrow> world \<Rightarrow> world" where
  "resolver_resolve r payload w =
     settle (res_promise r) (Fulfilled payload) (clear_timeout (res_timer r) w)"

text \<open>
  The two statements that end the \<open>try\<close> block:
  \<open>this._emit(type, payload, data); this._emit("*", data)\<close>.
\<close>

definition dispatch :: "behaviour \<Rightarrow> jsval \<Rightarrow> jsval \<Rightarrow> jsval \<Rightarrow> world \<Rightarrow> completion" where
  "dispatch B type payload data =
     seq (emit B type payload data) (emit B (JStr ''*'') data Undefined)"

text \<open>
  The \<open>try\<close> block of the message handler. Destructuring \<open>null\<close> throws a \<open>TypeError\<close>;
  the \<open>return\<close> is inside \<open>if (resolver)\<close>, so an acknowledgement without a live entry
  goes on to the two emits. The handler is the block with its \<open>catch\<close>, which emits
  \<open>error\<close>.
\<close>

definition message_try :: "behaviour \<Rightarrow> message \<Rightarrow> world \<Rightarrow> completion" where
  "message_try B msg w =
     (case msg of
        Malformed e \<Rightarrow> Thrown e w
      | Parsed data \<Rightarrow>
          if data = JNull \<or> data = Undefined
          then Thrown (JError ''TypeError'') w
          else
            let type = js_field ''type'' data;
                payload = js_field ''payload'' data;
                request_id = js_field ''request_id'' data
            in if type = JStr ''ack'' \<and> truthy request_id
               then (case pendingAcks_get w request_id of
                       Some r \<Rightarrow>
                         Done (pendingAcks_delete request_id (resolver_resolve r payload w))
                     | None \<Rightarrow> dispatch B type payload data w)
               else dispatch B type payload data w)"

definition on_message :: "behaviour \<Rightarrow> message \<Rightarrow> world \<Rightarrow> completion" where
  "on_message B msg =
     try_catch (message_try B msg) (\<lambda>e. emit B (JStr ''error'') e Undefined)"

subsection \<open>Timers firing\<close>

fun run_timer :: "timer_action \<Rightarrow> world \<Rightarrow> world" where
  "run_timer Reconnect w = connectOnce w"
| "run_timer (AckTimeout request_id p) w =
     settle p (Rejected (JError ''Ack timeout''))
       (w\<lparr>pendingAcks := (pendingAcks w)(request_id := None)\<rparr>)"
| "run_timer Heartbeat w = heartbeat_tick w"

text \<open>
  The event loop runs the timer \<open>t\<close>: a timeout is spent by firing, an interval stays
  set, a cleared timer does not fire.
\<close>

definition fire :: "nat \<Rightarrow> world \<Rightarrow> world" where
  "fire t w =
     (case timers w t of
        None \<Rightarrow> w
      | Some (Timeout d f) \<Rightarrow> run_timer f (w\<lparr>timers := (timers w)(t := None)\<rparr>)
      | Some (Interval d f) \<Rightarrow> run_timer f w)"

text \<open>The platform opens the socket the object holds: its state changes, then the handler runs.\<close>

definition socket_opens :: "behaviour \<Rightarrow> world \<Rightarrow> completion" where
  "socket_opens B w =
     on_open B (w\<lparr>ws := map_option (\<lambda>sock. sock\<lparr>readyState := OPEN\<rparr>) (ws w)\<rparr>)"

subsection \<open>Runs\<close>

text \<open>
  A run starts from a constructed client. The application calls methods, the platform
  changes the state of the socket, runs a handler, fires a timer, advances the clock,
  and callers change their own objects. \<open>reachable B w\<close>: the world \<open>w\<close> occurs in a run
  in which the callbacks behave as \<open>B\<close> says. Events are not restricted to the order in
  which a platform delivers them, so every world of a real run is reachable.
\<close>

inductive reachable :: "behaviour \<Rightarrow> world \<Rightarrow> bool" for B :: behaviour where
  constructed: "reachable B (constructor u options objects)"
| called: "reachable B w \<Longrightarrow> reachable B (run_action a w)"
| socket_state: "reachable B w \<Longrightarrow>
    reachable B (w\<lparr>ws := map_option (\<lambda>sock. sock\<lparr>readyState := state\<rparr>) (ws w)\<rparr>)"
| opened: "reachable B w \<Longrightarrow> reachable B (world_of (on_open B w))"
| closed: "reachable B w \<Longrightarrow> reachable B (world_of (on_close B ev w))"
| errored: "reachable B w \<Longrightarrow> reachable B (world_of (on_error B err w))"
| received: "reachable B w \<Longrightarrow> reachable B (world_of (on_message B msg w))"
| fired: "reachable B w \<Longrightarrow> reachable B (fire t w)"
| ticked: "reachable B w \<Longrightarrow> reachable B (w\<lparr>clock := n\<rparr>)"
| stored: "reachable B w \<Longrightarrow> reachable B (w\<lparr>store := objects\<rparr>)"

text \<open>
  What holds of every reachable world. \<open>well_formed\<close>: the map of listeners has no entry
  for \<open>"*"\<close>, and the handles held by the client were handed out before, the heartbeat's
  being no entry's. \<open>entries_armed\<close>: every entry of the table of pending
  acknowledgements has a pending promise and a timer that is set with its request id and
  its promise; entries do not share promises; a timer that is set for an acknowledgement
  shares its promise with no entry of another request or another timer; intervals are
  heartbeats. \<open>ids_below\<close>: the request ids in the table are not empty and, while the
  counter is below \<open>2^53\<close>, they render numbers below the counter.
\<close>

definition well_formed :: "world \<Rightarrow> bool" where
  "well_formed w \<longleftrightarrow>
     listeners w (JStr ''*'') = None \<and>
     (\<forall>t. heartbeatTimer w = Some t \<longrightarrow> t < nextTimer w) \<and>
     (\<forall>rid r. pendingAcks w rid = Some r \<longrightarrow>
        res_timer r < nextTimer w \<and> heartbeatTimer w \<noteq> Some (res_timer r))"

definition entries_armed :: "world \<Rightarrow> bool" where
  "entries_armed w \<longleftrightarrow>
     (\<forall>rid r. pendingAcks w rid = Some r \<longrightarrow>
        res_promise r < nextPromise w \<and> promises w (res_promise r) = Some Pending \<and>
        (\<exists>d. timers w (res_timer r) = Some (Timeout d (AckTimeout rid (res_promise r))))) \<and>
     (\<forall>rid1 r1 rid2 r2. pendingAcks w rid1 = Some r1 \<and> pendingAcks w rid2 = Some r2 \<and>
        res_promise r1 = res_promise r2 \<longrightarrow> rid1 = rid2) \<and>
     (\<forall>t d rid p. timers w t = Some (Timeout d (AckTimeout rid p)) \<longrightarrow>
        t < nextTimer w \<and> p < nextPromise w \<and>
        (\<forall>rid2 r2. pendingAcks w rid2 = Some r2 \<and> res_promise r2 = p \<longrightarrow>
           rid2 = rid \<and> res_timer r2 = t)) \<and>
     (\<forall>t d f. timers w t = Some (Interval d f) \<longrightarrow> f = Heartbeat)"

definition sound :: "world \<Rightarrow> bool" where
  "sound w \<longleftrightarrow> well_formed w \<and> entries_armed w"

definition ids_below :: "world \<Rightarrow> bool" where
  "ids_below w \<longleftrightarrow>
     pendingAcks w [] = None \<and>
     (nextRequestId w < 2 ^ 53 \<longrightarrow>
        (\<forall>rid r. pendingAcks w rid = Some r \<longrightarrow> (\<exists>k<nextRequestId w. rid = String_of k)))"

subsection \<open>Scenarios\<close>

text \<open>
  The inputs of the examples: a client built with the defaults whose callers own one
  command object, callbacks that return at once, the same client with its socket open
  (the heartbeat holds timer 1), and the acknowledgement of its first request.
\<close>

definition no_opts :: opts where
  "no_opts = \<lparr>opt_reconnectDelay = None, opt_maxReconnectDelay = None,
     opt_backoffFactor = None, opt_heartbeatInterval = None\<rparr>"

definition quiet :: behaviour where
  "quiet cb args w = ([], None)"

definition ping_command :: jsval where
  "ping_command = JObj [(''type'', JStr ''command''), (''payload'', JObj [(''action'', JStr ''ping'')])]"

definition idle_world :: world where
  "idle_world = constructor ''ws://localhost:8000/ws'' no_opts (\<lambda>a. ping_command)"

definition open_world :: world where
  "open_world = world_of (socket_opens quiet (connect idle_world))"

definition open_socket :: websocket where
  "open_socket = \<lparr>ws_url = ''ws://localhost:8000/ws'', readyState = OPEN, outbox = []\<rparr>"

definition ack_frame :: jsval where
  "ack_frame = JObj [(''type'', JStr ''ack''), (''request_id'', JStr ''1''),
     (''payload'', JObj [(''ok'', JBool True)])]"

definition await_opts :: send_opts where
  "await_opts = \<lparr>awaitAck = Some True, timeout = Some 100\<rparr>"

text \<open>
  The backoff example: base delay 1000, factor 2, ceiling 5000. \<open>close_then_retry\<close> is
  one failed cycle: the socket closes, the timer set by the close handler fires, and
  the new socket is left connecting. \<open>retry_socket\<close> is the socket of a new attempt.
  \<open>retry_inv k\<close> describes the example after \<open>k\<close> such cycles: the client holds a
  connecting socket and no timer is set.
\<close>

definition backoff_opts :: opts where
  "backoff_opts = \<lparr>opt_reconnectDelay = Some 1000, opt_maxReconnectDelay = Some 5000,
     opt_backoffFactor = Some 2, opt_heartbeatInterval = None\<rparr>"

definition backoff_world :: world where
  "backoff_world = connect (constructor ''ws://localhost:8000/ws'' backoff_opts (\<lambda>a. JNull))"

definition close_then_retry :: "behaviour \<Rightarrow> jsval \<Rightarrow> world \<Rightarrow> world" where
  "close_then_retry B ev w = (let w1 = world_of (on_close B ev w) in fire (nextTimer w1 - 1) w1)"

definition example_delay :: "nat \<Rightarrow> rat" where
  "example_delay k = (if k = 0 then 1000 else if k = 1 then 2000 else if k = 2 then 4000 else 5000)"

definition retry_socket :: websocket where
  "retry_socket = \<lparr>ws_url = ''ws://localhost:8000/ws'', readyState = CONNECTING, outbox = []\<rparr>"

definition retry_inv :: "nat \<Rightarrow> world \<Rightarrow> bool" where
  "retry_inv k w \<longleftrightarrow> url w = ''ws://localhost:8000/ws'' \<and> ws w = Some retry_socket \<and>
     timers w = Map.empty \<and> listeners w = Map.empty \<and> anyListeners w = [] \<and> shouldReconnect w \<and>
     heartbeatTimer w = None \<and> nextTimer w = Suc k \<and> backoffFactor w = 2 \<and>
     maxReconnectDelay w = 5000 \<and> reconnectDelay w = example_delay k"

text \<open>
  A client built with \<open>reconnectDelay: 500\<close>. The frame of a trade, and the open client
  with callback 1 subscribed to \<open>trade\<close> and callback 2 to \<open>*\<close>.
\<close>

definition reset_opts :: opts where
  "reset_opts = no_opts\<lparr>opt_reconnectDelay := Some 500\<rparr>"

definition trade_payload :: jsval where
  "trade_payload = JObj [(''id'', JNum 1), (''pnl'', JNum (5 / 2))]"

definition trade_frame :: jsval where
  "trade_frame = JObj [(''type'', JStr ''trade''), (''payload'', trade_payload)]"

definition watched_world :: world where
  "watched_world = on (JStr ''*'') 2 (on (JStr ''trade'') 1 open_world)"

text \<open>
  Callbacks of which number 1 throws, and the open client with callbacks 1 and 2 on
  \<open>trade\<close> and callback 3 on \<open>*\<close>.
\<close>

definition faulty :: behaviour where
  "faulty cb args w = ([], if cb = 1 then Some (JError ''boom'') else None)"

definition crowd_world :: world where
  "crowd_world = on (JStr ''*'') 3 (on (JStr ''trade'') 2 (on (JStr ''trade'') 1 open_world))"

text \<open>
  A decoded frame with no \<open>type\<close>, and the open client with callback 1 on \<open>error\<close> and
  callback 2 on \<open>*\<close>.
\<close>

definition typeless_frame :: jsval where
  "typeless_frame = JObj [(''payload'', JNum 1)]"

definition guarded_world :: world where
  "guarded_world = on (JStr ''*'') 2 (on (JStr ''error'') 1 open_world)"

text \<open>
  A fire-and-forget send of a command that already has a \<open>request_id\<close>.
\<close>

definition forget_opts :: send_opts where
  "forget_opts = \<lparr>awaitAck = None, timeout = None\<rparr>"

definition tagged_command :: jsval where
  "tagged_command = JObj [(''request_id'', JStr ''mine''), (''type'', JStr ''command'')]"

definition tagged_world :: world where
  "tagged_world = open_world\<lparr>store := (\<lambda>a. tagged_command)\<rparr>"

text \<open>
  The open client after a send that awaits its acknowledgement (timer 2, promise 0), and
  the open client with callback 2 on \<open>*\<close> after such a send has timed out.
\<close>

definition awaiting_world :: world where
  "awaiting_world = snd (send 0 await_opts open_world)"

definition late_world :: world where
  "late_world = fire 2 (snd (send 0 await_opts (on (JStr ''*'') 2 open_world)))"

section \<open>Properties\<close>

subsection \<open>Decimal rendering\<close>

lemma String_of_nonempty: "String_of n \<noteq> []"
  by (subst String_of.simps) simp

lemma digit_char_inj: "a < 10 \<Longrightarrow> b < 10 \<Longrightarrow> digit_char a = digit_char b \<Longrightarrow> a = b"
proof -
  assume "a < 10" "b < 10" "digit_char a = digit_char b"
  have e: "x \<in> {0, 1, 2, 3, 4, 5, 6, 7, 8, 9}" if "x < 10" for x :: nat
    using that by auto
  from e [OF \<open>a < 10\<close>] e [OF \<open>b < 10\<close>] \<open>digit_char a = digit_char b\<close>
  show "a = b"
    by (auto simp: digit_char_def)
qed

lemma String_of_inj: "String_of m = String_of n \<Longrightarrow> m = n"
proof (induction m arbitrary: n rule: String_of.induct)
  case (1 m)
  show ?case
  proof (cases "m < 10")
    case True
    then have m: "String_of m = [digit_char m]"
      by (subst String_of.simps) simp
    show ?thesis
    proof (cases "n < 10")
      case n: True
      then have "String_of n = [digit_char n]"
        by (subst String_of.simps) simp
      with m "1.prems" have "digit_char m = digit_char n" by simp
      then show ?thesis using True n by (rule digit_char_inj [rotated 2])
    next
      case False
      then have "String_of n = String_of (n div 10) @ [digit_char (n mod 10)]"
        by (subst String_of.simps) simp
      with m "1.prems" have "String_of (n div 10) = []" by simp
      then show ?thesis using String_of_nonempty by blast
    qed
  next
    case False
    then have m: "String_of m = String_of (m div 10) @ [digit_char (m mod 10)]"
      by (subst String_of.simps) simp
    show ?thesis
    proof (cases "n < 10")
      case True
      then have "String_of n = [digit_char n]"
        by (subst String_of.simps) simp
      with m "1.prems" have "String_of (m div 10) = []" by simp
      then show ?thesis using String_of_nonempty by blast
    next
      case n: False
      then have "String_of n = String_of (n div 10) @ [digit_char (n mod 10)]"
        by (subst String_of.simps) simp
      with m "1.prems" have a: "String_of (m div 10) = String_of (n div 10)"
        and b: "digit_char (m mod 10) = digit_char (n mod 10)" by simp_all
      from "1.IH" [OF False a] have "m div 10 = n div 10" .
      moreover have "m mod 10 = n mod 10"
        using b by (intro digit_char_inj) simp_all
      ultimately show ?thesis
        by (metis div_mult_mod_eq)
    qed
  qed
qed

subsection \<open>Completion of the emitting code\<close>

lemma seq_Done [simp]: "a w = Done w1 \<Longrightarrow> seq a b w = b w1"
  by (simp add: seq_def)

lemma try_catch_console:
  "\<exists>w1. try_catch (call_cb B cb args) (console_error label) w = Done w1"
  by (simp add: try_catch_def console_error_def split: completion.splits)

lemma call_each_Done: "\<exists>w1. call_each B label cbs args w = Done w1"
proof (induction cbs arbitrary: w)
  case Nil
  show ?case by simp
next
  case (Cons cb cbs)
  obtain w1 where "try_catch (call_cb B cb args) (console_error label) w = Done w1"
    using try_catch_console by blast
  then show ?case using Cons.IH [of w1] by simp
qed

lemma emit_listeners_Done: "\<exists>w1. emit_listeners B eventType payload full w = Done w1"
  using call_each_Done by (fastforce simp: emit_listeners_def split: option.splits)

lemma emit_any_Done: "\<exists>w1. emit_any B eventType payload full w = Done w1"
  using call_each_Done by (fastforce simp: emit_any_def)

lemma emit_Done: "\<exists>w1. emit B eventType payload full w = Done w1"
proof -
  obtain w1 where 1: "emit_listeners B eventType payload full w = Done w1"
    using emit_listeners_Done by blast
  obtain w2 where "emit_any B eventType payload full w1 = Done w2"
    using emit_any_Done by blast
  with 1 show ?thesis by (simp add: emit_def)
qed

lemma seq_emit: "seq (emit B eventType payload full) b w = b (world_of (emit B eventType payload full w))"
  using emit_Done [of B eventType payload full w] by auto

lemma emit_no_listeners:
  "listeners w = Map.empty \<Longrightarrow> anyListeners w = [] \<Longrightarrow> emit B eventType payload full w = Done w"
  by (simp add: emit_def seq_def emit_listeners_def emit_any_def listeners_get_def)

lemma dispatch_Done: "\<exists>w1. dispatch B type payload data w = Done w1"
proof -
  obtain w1 where 1: "emit B type payload data w = Done w1"
    using emit_Done by blast
  obtain w2 where "emit B (JStr ''*'') data Undefined w1 = Done w2"
    using emit_Done by blast
  with 1 show ?thesis by (simp add: dispatch_def)
qed

lemma on_message_Done: "\<exists>w1. on_message B msg w = Done w1"
proof (cases "message_try B msg w")
  case (Done w1)
  then show ?thesis by (simp add: on_message_def try_catch_def)
next
  case (Thrown e w1)
  then show ?thesis using emit_Done [of B "JStr ''error''" e Undefined w1]
    by (simp add: on_message_def try_catch_def)
qed

lemma call_cb_world:
  "world_of (call_cb B cb args w) =
     fold run_action (fst (B cb args w)) (w\<lparr>trace := trace w @ [Called cb args]\<rparr>)"
  by (simp add: call_cb_def Let_def split: prod.splits option.splits)

text \<open>
  A property of the world that every method keeps, and that does not depend on the
  trace or the console, holds after any pass over callbacks.
\<close>

lemma call_each_preserves:
  assumes step: "\<And>cb args v a w. a \<in> set (fst (B cb args v)) \<Longrightarrow> P w \<Longrightarrow> P (run_action a w)"
    and tr: "\<And>c w. P w \<Longrightarrow> P (w\<lparr>trace := trace w @ [c]\<rparr>)"
    and con: "\<And>l w. P w \<Longrightarrow> P (w\<lparr>console := console w @ [l]\<rparr>)"
    and "P w"
  shows "P (world_of (call_each B label cbs args w))"
  using \<open>P w\<close>
proof (induction cbs arbitrary: w)
  case Nil
  then show ?case by simp
next
  case (Cons cb cbs)
  have f: "P (fold run_action acts v)" if "P v" "set acts \<subseteq> set (fst (B cb args w))" for acts v
    using that by (induction acts arbitrary: v) (auto intro: step)
  have 1: "P (world_of (call_cb B cb args w))"
    unfolding call_cb_world using Cons.prems by (intro f tr) simp_all
  have 2: "P (world_of (try_catch (call_cb B cb args) (console_error label) w))"
    using 1 by (auto simp: try_catch_def console_error_def intro: con split: completion.splits)
  obtain w1 where 3: "try_catch (call_cb B cb args) (console_error label) w = Done w1"
    using try_catch_console by blast
  with 2 have "P w1" by simp
  then show ?case using Cons.IH [of w1] 3 by simp
qed

lemma emit_listeners_preserves:
  assumes step: "\<And>cb args v a w. a \<in> set (fst (B cb args v)) \<Longrightarrow> P w \<Longrightarrow> P (run_action a w)"
    and tr: "\<And>c w. P w \<Longrightarrow> P (w\<lparr>trace := trace w @ [c]\<rparr>)"
    and con: "\<And>l w. P w \<Longrightarrow> P (w\<lparr>console := console w @ [l]\<rparr>)"
    and "P w"
  shows "P (world_of (emit_listeners B eventType payload full w))"
proof -
  have "P (world_of (call_each B label cbs args w))" for label cbs args
    by (rule call_each_preserves [of B P]) (blast intro: assms)+
  with \<open>P w\<close> show ?thesis
    by (simp add: emit_listeners_def split: option.splits)
qed

lemma emit_preserves:
  assumes step: "\<And>cb args v a w. a \<in> set (fst (B cb args v)) \<Longrightarrow> P w \<Longrightarrow> P (run_action a w)"
    and tr: "\<And>c w. P w \<Longrightarrow> P (w\<lparr>trace := trace w @ [c]\<rparr>)"
    and con: "\<And>l w. P w \<Longrightarrow> P (w\<lparr>console := console w @ [l]\<rparr>)"
    and "P w"
  shows "P (world_of (emit B eventType payload full w))"
proof -
  have 1: "P (world_of (emit_listeners B eventType payload full w))"
    by (rule emit_listeners_preserves [of B P]) (blast intro: assms)+
  obtain w1 where 2: "emit_listeners B eventType payload full w = Done w1"
    using emit_listeners_Done by blast
  from 1 have "P w1" by (simp add: 2)
  then have "P (world_of (emit_any B eventType payload full w1))"
    unfolding emit_any_def by (intro call_each_preserves [of B P]) (blast intro: assms)+
  with 2 show ?thesis by (simp add: emit_def)
qed

lemma dispatch_preserves:
  assumes step: "\<And>cb args v a w. a \<in> set (fst (B cb args v)) \<Longrightarrow> P w \<Longrightarrow> P (run_action a w)"
    and tr: "\<And>c w. P w \<Longrightarrow> P (w\<lparr>trace := trace w @ [c]\<rparr>)"
    and con: "\<And>l w. P w \<Longrightarrow> P (w\<lparr>console := console w @ [l]\<rparr>)"
    and "P w"
  shows "P (world_of (dispatch B type payload data w))"
proof -
  have 1: "P (world_of (emit B type payload data w))"
    by (rule emit_preserves [of B P]) (blast intro: assms)+
  have "P (world_of (emit B (JStr ''*'') data Undefined (world_of (emit B type payload data w))))"
    by (rule emit_preserves [of B P]) (blast intro: assms 1)+
  then show ?thesis
    by (simp add: dispatch_def seq_emit)
qed

lemmas api_defs = on_def off_def send_def connect_def connectOnce_def assign_ws_def
  disconnect_def stopHeartbeat_def new_promise_def set_timeout_def Let_def

lemma run_action_trace [simp]: "trace (run_action a w) = trace w"
  by (cases a) (simp_all add: api_defs split: option.splits prod.splits)

lemma run_action_backoff [simp]:
  "reconnectDelay (run_action a w) = reconnectDelay w"
  "backoffFactor (run_action a w) = backoffFactor w"
  "maxReconnectDelay (run_action a w) = maxReconnectDelay w"
  by (cases a; simp add: api_defs split: option.splits prod.splits)+


lemma call_each_trace:
  "trace (world_of (call_each B label cbs args w)) = trace w @ map (\<lambda>cb. Called cb args) cbs"
proof (induction cbs arbitrary: w)
  case Nil
  show ?case by simp
next
  case (Cons cb cbs)
  have f: "trace (fold run_action acts v) = trace v" for acts v
    by (induction acts arbitrary: v) simp_all
  obtain w1 where 1: "try_catch (call_cb B cb args) (console_error label) w = Done w1"
    using try_catch_console by blast
  have "trace (world_of (try_catch (call_cb B cb args) (console_error label) w)) = trace (world_of (call_cb B cb args w))"
    by (auto simp: try_catch_def console_error_def split: completion.splits)
  then have "trace w1 = trace w @ [Called cb args]"
    by (simp add: 1 call_cb_world f)
  then show ?case using Cons.IH [of w1] 1 by simp
qed

lemma emit_backoff:
  "reconnectDelay (world_of (emit B t p f w)) = reconnectDelay w \<and>
   backoffFactor (world_of (emit B t p f w)) = backoffFactor w \<and>
   maxReconnectDelay (world_of (emit B t p f w)) = maxReconnectDelay w"
  by (rule emit_preserves [of B "\<lambda>v. reconnectDelay v = reconnectDelay w \<and>
       backoffFactor v = backoffFactor w \<and> maxReconnectDelay v = maxReconnectDelay w"]) simp_all

lemma run_action_intent:
  "a \<noteq> CallDisconnect \<Longrightarrow> shouldReconnect (w::world) \<Longrightarrow> shouldReconnect (run_action a w)"
  "a \<noteq> CallConnect \<Longrightarrow> \<not> shouldReconnect w \<Longrightarrow> \<not> shouldReconnect (run_action a w)"
  by (cases a; simp add: api_defs split: option.splits prod.splits)+

lemma emit_intent_kept:
  assumes "\<forall>cb args v. CallDisconnect \<notin> set (fst (B cb args v))" "shouldReconnect w"
  shows "shouldReconnect (world_of (emit B eventType payload full w))"
proof (rule emit_preserves [of B shouldReconnect])
  fix cb args v a and u :: world
  assume "a \<in> set (fst (B cb args v))" "shouldReconnect u"
  with assms(1) show "shouldReconnect (run_action a u)"
    by (intro run_action_intent(1)) auto
qed (use assms(2) in simp_all)

lemma emit_intent_cleared:
  assumes "\<forall>cb args v. CallConnect \<notin> set (fst (B cb args v))" "\<not> shouldReconnect w"
  shows "\<not> shouldReconnect (world_of (emit B eventType payload full w))"
proof (rule emit_preserves [of B "\<lambda>v. \<not> shouldReconnect v"])
  fix cb args v a and u :: world
  assume "a \<in> set (fst (B cb args v))" "\<not> shouldReconnect u"
  with assms(1) show "\<not> shouldReconnect (run_action a u)"
    by (intro run_action_intent(2)) auto
qed (use assms(2) in simp_all)

subsection \<open>The example worlds\<close>

lemma String_of_1: "String_of (Suc 0) = ''1''"
  by (simp add: String_of.simps digit_char_def)

lemma idle_world_fields:
  "ws idle_world = None" "listeners idle_world = Map.empty" "anyListeners idle_world = []"
  "nextRequestId idle_world = 1" "nextTimer idle_world = 1" "nextPromise idle_world = 0"
  "heartbeatTimer idle_world = None" "trace idle_world = []" "shouldReconnect idle_world"
  "url idle_world = ''ws://localhost:8000/ws''" "pendingAcks idle_world = Map.empty"
  "store idle_world = (\<lambda>a. ping_command)"
  by (simp_all add: idle_world_def constructor_def)

lemma open_world_eq:
  "open_world = idle_world\<lparr>ws := Some open_socket, reconnectDelay := 1000,
     timers := (timers idle_world)(1 \<mapsto> Interval (heartbeatInterval idle_world) Heartbeat),
     nextTimer := 2, heartbeatTimer := Some 1\<rparr>"
  by (simp add: open_world_def socket_opens_def on_open_def connect_def connectOnce_def
      assign_ws_def idle_world_fields emit_no_listeners startHeartbeat_def stopHeartbeat_def
      open_socket_def Let_def numeral_2_eq_2)

lemma awaiting_world_fields:
  "heartbeatTimer awaiting_world = Some 1"
  "pendingAcks awaiting_world ''1'' = Some \<lparr>res_timer = 2, res_promise = 0\<rparr>"
  "promises awaiting_world 0 = Some Pending"
  "timers awaiting_world 2 = Some (Timeout 100 (AckTimeout ''1'' 0))"
  "listeners awaiting_world = Map.empty" "anyListeners awaiting_world = []"
  by (simp_all add: awaiting_world_def send_def open_world_eq idle_world_fields open_socket_def
      await_opts_def Let_def new_promise_def set_timeout_def String_of_1)

subsection \<open>Dispatch\<close>

lemmas emit_defs = on_message_def try_catch_def message_try_def dispatch_def emit_def seq_def
  emit_listeners_def emit_any_def listeners_get_def call_cb_def console_error_def js_field_def
  pendingAcks_get_def Let_def

lemma watched_world_fields:
  "listeners watched_world = [JStr ''trade'' \<mapsto> [1]]" "anyListeners watched_world = [2]"
  "trace watched_world = []"
  by (simp_all add: watched_world_def on_def set_add_def open_world_eq idle_world_fields Let_def)

text \<open>
  C1. The example of the specification, evaluated: the frame
  \<open>{"type":"trade","payload":{"id":1,"pnl":2.5}}\<close> arrives at a client with callback 1
  on \<open>trade\<close> and callback 2 on \<open>*\<close>. Callback 1 is called once with the payload and
  the frame. Callback 2 is called twice: by the emit of \<open>trade\<close> with the type, the payload
  and the frame, and by the emit of \<open>*\<close> that follows with \<open>"*"\<close>, the frame and
  \<open>undefined\<close>.
\<close>

theorem wildcard_called_twice:
  "trace (world_of (on_message quiet (Parsed trade_frame) watched_world)) =
     [Called 1 [trade_payload, trade_frame],
      Called 2 [JStr ''trade'', trade_payload, trade_frame],
      Called 2 [JStr ''*'', trade_frame, Undefined]]"
  by (simp add: emit_defs watched_world_fields quiet_def trade_frame_def)

lemma emit_listeners_trace:
  "trace (world_of (emit_listeners B eventType payload full w)) =
     trace w @ map (\<lambda>cb. Called cb [payload, full])
                 (case listeners_get w eventType of None \<Rightarrow> [] | Some s \<Rightarrow> s)"
  by (simp add: emit_listeners_def call_each_trace split: option.splits)

lemma emit_trace:
  "trace (world_of (emit B eventType payload full w)) =
     trace w @ map (\<lambda>cb. Called cb [payload, full])
                 (case listeners_get w eventType of None \<Rightarrow> [] | Some s \<Rightarrow> s)
             @ map (\<lambda>cb. Called cb [eventType, payload, full])
                 (anyListeners (world_of (emit_listeners B eventType payload full w)))"
proof -
  obtain w1 where 1: "emit_listeners B eventType payload full w = Done w1"
    using emit_listeners_Done by blast
  have "trace w1 = trace w @ map (\<lambda>cb. Called cb [payload, full])
                 (case listeners_get w eventType of None \<Rightarrow> [] | Some s \<Rightarrow> s)"
    using emit_listeners_trace [of B eventType payload full w] by (simp add: 1)
  then show ?thesis
    by (simp add: emit_def 1 emit_any_def call_each_trace)
qed

lemma emit_listeners_registry:
  assumes "\<forall>cb args v. fst (B cb args v) = []"
  shows "anyListeners (world_of (emit_listeners B eventType payload full w)) = anyListeners w"
  by (rule emit_listeners_preserves [of B "\<lambda>v. anyListeners v = anyListeners w"])
     (use assms in simp_all)

text \<open>
  C8. Whatever the callbacks do and whichever of them throw, an emit completes normally,
  and it has called, in order, every listener of the event type once with the payload
  and the frame, and then every wildcard listener registered when the first pass is over
  once with the type, the payload and the frame; these are the wildcard listeners
  registered before the emit when no callback calls a method of the client. Dispatching
  a frame and handling a message complete normally as well.
\<close>

theorem listener_errors_isolated:
  "is_Done (emit B eventType payload full w) \<and>
   trace (world_of (emit B eventType payload full w)) =
     trace w @ map (\<lambda>cb. Called cb [payload, full])
                 (case listeners_get w eventType of None \<Rightarrow> [] | Some s \<Rightarrow> s)
             @ map (\<lambda>cb. Called cb [eventType, payload, full])
                 (anyListeners (world_of (emit_listeners B eventType payload full w))) \<and>
   ((\<forall>cb args v. fst (B cb args v) = []) \<longrightarrow>
      anyListeners (world_of (emit_listeners B eventType payload full w)) = anyListeners w) \<and>
   is_Done (dispatch B eventType payload full w) \<and>
   is_Done (on_message B msg w)"
proof -
  have "is_Done (emit B eventType payload full w)"
    using emit_Done [of B eventType payload full w] by auto
  moreover have "is_Done (dispatch B eventType payload full w)"
    using dispatch_Done [of B eventType payload full w] by auto
  moreover have "is_Done (on_message B msg w)"
    using on_message_Done [of B msg w] by auto
  ultimately show ?thesis
    using emit_trace [of B eventType payload full w]
      emit_listeners_registry [of B eventType payload full w]
    by blast
qed

lemma crowd_world_fields:
  "listeners crowd_world = [JStr ''trade'' \<mapsto> [1, 2]]" "anyListeners crowd_world = [3]"
  "trace crowd_world = []" "console crowd_world = []"
  by (simp_all add: crowd_world_def on_def set_add_def open_world_eq idle_world_fields Let_def
      idle_world_def constructor_def)

theorem listener_errors_isolated_witness:
  "(\<forall>cb args v. fst (faulty cb args v) = []) \<and>
   snd (faulty 1 [trade_payload, trade_frame] crowd_world) = Some (JError ''boom'') \<and>
   is_Done (emit faulty (JStr ''trade'') trade_payload trade_frame crowd_world) \<and>
   trace (world_of (emit faulty (JStr ''trade'') trade_payload trade_frame crowd_world)) =
     [Called 1 [trade_payload, trade_frame], Called 2 [trade_payload, trade_frame],
      Called 3 [JStr ''trade'', trade_payload, trade_frame]] \<and>
   console (world_of (emit faulty (JStr ''trade'') trade_payload trade_frame crowd_world)) =
     [(''listener error'', JError ''boom'')]"
proof -
  have q: "\<forall>cb args v. fst (faulty cb args v) = []"
    by (simp add: faulty_def)
  have c: "console (world_of (emit faulty (JStr ''trade'') trade_payload trade_frame crowd_world)) =
     [(''listener error'', JError ''boom'')]"
    by (simp add: emit_defs crowd_world_fields faulty_def)
  show ?thesis
    using q c listener_errors_isolated [of faulty "JStr ''trade''" trade_payload trade_frame crowd_world]
    by (simp add: crowd_world_fields listeners_get_def faulty_def)
qed

text \<open>
  The calls made for one frame when no callback calls a method of the client: the
  listeners of the type, the wildcard listeners, the listeners registered under \<open>"*"\<close> in
  the map (\<open>on\<close> never registers any there) and the wildcard listeners a second time.
\<close>

lemma emit_registry:
  assumes "\<forall>cb args v. fst (B cb args v) = []"
  shows "listeners (world_of (emit B eventType payload full w)) = listeners w \<and>
         anyListeners (world_of (emit B eventType payload full w)) = anyListeners w"
  by (rule emit_preserves [of B "\<lambda>v. listeners v = listeners w \<and> anyListeners v = anyListeners w"])
     (use assms in simp_all)

lemma dispatch_calls:
  assumes "\<forall>cb args v. fst (B cb args v) = []"
  shows "trace (world_of (dispatch B type payload data w)) =
     trace w
       @ map (\<lambda>cb. Called cb [payload, data])
           (case listeners_get w type of None \<Rightarrow> [] | Some s \<Rightarrow> s)
       @ map (\<lambda>cb. Called cb [type, payload, data]) (anyListeners w)
       @ map (\<lambda>cb. Called cb [data, Undefined])
           (case listeners_get w (JStr ''*'') of None \<Rightarrow> [] | Some s \<Rightarrow> s)
       @ map (\<lambda>cb. Called cb [JStr ''*'', data, Undefined]) (anyListeners w)"
proof -
  let ?w1 = "world_of (emit B type payload data w)"
  have r: "listeners ?w1 = listeners w" "anyListeners ?w1 = anyListeners w"
    using emit_registry [OF assms, of type payload data w] by simp_all
  have g: "listeners_get ?w1 k = listeners_get w k" for k
    by (simp add: listeners_get_def r)
  have "trace (world_of (dispatch B type payload data w))
          = trace (world_of (emit B (JStr ''*'') data Undefined ?w1))"
    by (simp add: dispatch_def seq_emit)
  then show ?thesis
    by (simp add: emit_trace emit_listeners_registry [OF assms] g r)
qed

lemma guarded_world_fields:
  "listeners guarded_world = [JStr ''error'' \<mapsto> [1]]" "anyListeners guarded_world = [2]"
  "trace guarded_world = []"
  by (simp_all add: guarded_world_def on_def set_add_def open_world_eq idle_world_fields Let_def)

text \<open>
  C7, as stated, fails: a decoded frame with no \<open>type\<close> raises no \<open>error\<close> event (the
  listener of \<open>error\<close>, callback 1, is not called) and is handed to the wildcard
  listener, with the type \<open>undefined\<close>.
\<close>

theorem typeless_frame_dispatched:
  "trace (world_of (on_message quiet (Parsed typeless_frame) guarded_world)) =
     [Called 2 [Undefined, JNum 1, typeless_frame], Called 2 [JStr ''*'', typeless_frame, Undefined]]"
  by (simp add: emit_defs guarded_world_fields quiet_def typeless_frame_def)

text \<open>
  C7, amended. When \<open>JSON.parse\<close> throws, or returns \<open>null\<close>, the handler does exactly
  what an emit of \<open>error\<close> carrying the exception does, so that only that event reaches a
  callback; handling any message completes normally. A decoded object with no \<open>type\<close>
  is not a failure: it is dispatched with the type \<open>undefined\<close>.
\<close>

theorem parse_failure_reported:
  "on_message B (Malformed e) w = emit B (JStr ''error'') e Undefined w \<and>
   on_message B (Parsed JNull) w = emit B (JStr ''error'') (JError ''TypeError'') Undefined w \<and>
   is_Done (on_message B msg w) \<and>
   (map_of kvs ''type'' = None \<longrightarrow>
      on_message B (Parsed (JObj kvs)) w
        = dispatch B Undefined (js_field ''payload'' (JObj kvs)) (JObj kvs) w)"
proof -
  have 1: "on_message B (Malformed e) w = emit B (JStr ''error'') e Undefined w"
    by (simp add: on_message_def try_catch_def message_try_def)
  have 2: "on_message B (Parsed JNull) w = emit B (JStr ''error'') (JError ''TypeError'') Undefined w"
    by (simp add: on_message_def try_catch_def message_try_def)
  have 3: "is_Done (on_message B msg w)"
    using on_message_Done [of B msg w] by auto
  have 4: "on_message B (Parsed (JObj kvs)) w
        = dispatch B Undefined (js_field ''payload'' (JObj kvs)) (JObj kvs) w"
    if "map_of kvs ''type'' = None"
  proof -
    obtain w1 where d: "dispatch B Undefined (js_field ''payload'' (JObj kvs)) (JObj kvs) w = Done w1"
      using dispatch_Done by blast
    have "message_try B (Parsed (JObj kvs)) w = Done w1"
      using that d by (simp add: message_try_def js_field_def Let_def)
    then show ?thesis by (simp add: on_message_def try_catch_def d)
  qed
  from 1 2 3 4 show ?thesis by blast
qed

theorem parse_failure_reported_witness:
  "map_of [(''payload'', JNum 1)] ''type'' = None \<and>
   on_message quiet (Parsed typeless_frame) guarded_world
     = dispatch quiet Undefined (JNum 1) typeless_frame guarded_world \<and>
   trace (world_of (on_message quiet (Malformed (JError ''SyntaxError'')) guarded_world))
     = [Called 1 [JError ''SyntaxError'', Undefined],
        Called 2 [JStr ''error'', JError ''SyntaxError'', Undefined]]"
proof -
  have t: "trace (world_of (emit quiet (JStr ''error'') (JError ''SyntaxError'') Undefined guarded_world))
     = [Called 1 [JError ''SyntaxError'', Undefined],
        Called 2 [JStr ''error'', JError ''SyntaxError'', Undefined]]"
    by (simp add: emit_defs guarded_world_fields quiet_def)
  show ?thesis
    using t parse_failure_reported [of quiet "JError ''SyntaxError''" guarded_world
        "Parsed JNull" "[(''payload'', JNum 1)]"]
    by (simp add: typeless_frame_def js_field_def)
qed

subsection \<open>Sending without an open transport\<close>

text \<open>
  C4. When the object holds no socket, or a socket whose state is not \<open>OPEN\<close>, \<open>send\<close>
  returns a promise rejected with the error "WebSocket is not open" and the world is
  the one before the call: nothing is transmitted, the counter of request ids, the table
  of pending acknowledgements, the timers and the promises are unchanged.
\<close>

theorem send_not_open:
  assumes "ws w = None \<or> (\<exists>sock. ws w = Some sock \<and> readyState sock \<noteq> OPEN)"
  shows "send a options w = (RejectedWith (JError ''WebSocket is not open''), w)"
  using assms by (auto simp: send_def)

theorem send_not_open_witness:
  "ws (connect idle_world) = Some (open_socket\<lparr>readyState := CONNECTING\<rparr>) \<and>
   send 0 await_opts (connect idle_world)
     = (RejectedWith (JError ''WebSocket is not open''), connect idle_world)"
proof -
  have 1: "ws (connect idle_world) = Some (open_socket\<lparr>readyState := CONNECTING\<rparr>)"
    by (simp add: connect_def connectOnce_def assign_ws_def idle_world_fields open_socket_def)
  then show ?thesis
    using send_not_open [of "connect idle_world" 0 await_opts] by simp
qed

subsection \<open>Backoff\<close>

lemma on_open_delay: "reconnectDelay (world_of (on_open B w)) = 1000"
proof -
  obtain w1 where 1: "emit B (JStr ''open'') Undefined Undefined (w\<lparr>reconnectDelay := 1000\<rparr>) = Done w1"
    using emit_Done by blast
  have "reconnectDelay w1 = 1000"
    using emit_backoff [of B "JStr ''open''" Undefined Undefined "w\<lparr>reconnectDelay := 1000\<rparr>"]
    by (simp add: 1)
  then show ?thesis
    by (simp add: on_open_def 1 startHeartbeat_def stopHeartbeat_def Let_def split: option.splits)
qed

text \<open>
  C2. Built with \<open>reconnectDelay: 500\<close>, the client starts with the delay 500; when its
  socket opens, the open handler stores the constant 1000, whatever the listeners of
  \<open>open\<close> do, and not the 500 given at construction.
\<close>

theorem open_resets_to_1000:
  "reconnectDelay (constructor u reset_opts objects) = 500 \<and>
   reconnectDelay (world_of (socket_opens B (connect (constructor u reset_opts objects)))) = 1000"
  by (simp add: socket_opens_def on_open_delay) (simp add: constructor_def reset_opts_def no_opts_def or_default_def)

lemma on_close_world:
  "on_close B ev w =
     Done (let w2 = assign_ws None (stopHeartbeat (world_of (emit B (JStr ''close'') ev Undefined w)))
           in if shouldReconnect w2
              then (snd (set_timeout Reconnect (reconnectDelay w2) w2))\<lparr>reconnectDelay :=
                      min (reconnectDelay w2 * backoffFactor w2) (maxReconnectDelay w2)\<rparr>
              else w2)"
  by (simp add: on_close_def seq_emit Let_def set_timeout_def)

lemma drop_heartbeat_fields [simp]:
  "shouldReconnect (assign_ws v (stopHeartbeat w)) = shouldReconnect w"
  "reconnectDelay (assign_ws v (stopHeartbeat w)) = reconnectDelay w"
  "backoffFactor (assign_ws v (stopHeartbeat w)) = backoffFactor w"
  "maxReconnectDelay (assign_ws v (stopHeartbeat w)) = maxReconnectDelay w"
  "nextTimer (assign_ws v (stopHeartbeat w)) = nextTimer w"
  by (simp_all add: assign_ws_def stopHeartbeat_def split: option.splits)

lemma run_action_url [simp]: "url (run_action a w) = url w"
  by (cases a; simp add: api_defs split: option.splits prod.splits)

lemma emit_url: "url (world_of (emit B t p f w)) = url w"
  by (rule emit_preserves [of B "\<lambda>v. url v = url w"]) simp_all

lemma drop_heartbeat_socket [simp]:
  "url (assign_ws v (stopHeartbeat w)) = url w"
  "ws (assign_ws v (stopHeartbeat w)) = v"
  by (simp_all add: assign_ws_def stopHeartbeat_def split: option.splits)

lemma on_close_reconnect:
  assumes "shouldReconnect (world_of (emit B (JStr ''close'') ev Undefined w))"
  shows "timers (world_of (on_close B ev w)) (nextTimer (world_of (emit B (JStr ''close'') ev Undefined w)))
           = Some (Timeout (reconnectDelay w) Reconnect)"
    and "nextTimer (world_of (on_close B ev w)) = Suc (nextTimer (world_of (emit B (JStr ''close'') ev Undefined w)))"
    and "reconnectDelay (world_of (on_close B ev w)) = min (reconnectDelay w * backoffFactor w) (maxReconnectDelay w)"
    and "ws (world_of (on_close B ev w)) = None"
    and "url (world_of (on_close B ev w)) = url w"
  using assms emit_backoff [of B "JStr ''close''" ev Undefined w] emit_url [of B "JStr ''close''" ev Undefined w]
  by (simp_all add: on_close_world Let_def set_timeout_def)

text \<open>
  Firing a timer that was set for a new attempt runs \<open>_connectOnce\<close>: the timer is spent
  and the client holds a new socket for its URL, which is connecting.
\<close>

lemma fire_reconnect:
  assumes "timers v t = Some (Timeout d Reconnect)"
  shows "fire t v = connectOnce (v\<lparr>timers := (timers v)(t := None)\<rparr>)"
    and "ws (fire t v) = Some \<lparr>ws_url = url v, readyState = CONNECTING, outbox = []\<rparr>"
    and "timers (fire t v) t = None"
  using assms by (simp_all add: fire_def connectOnce_def assign_ws_def split: option.splits)

lemma retry_inv_start: "retry_inv 0 backoff_world"
  by (simp add: retry_inv_def retry_socket_def backoff_world_def backoff_opts_def constructor_def
      connect_def connectOnce_def assign_ws_def or_default_def example_delay_def)

lemma retry_inv_step:
  assumes "retry_inv k w"
  shows "retry_inv (Suc k) (close_then_retry B ev w)"
proof -
  have e: "emit B (JStr ''close'') ev Undefined w = Done w"
    using assms by (simp add: retry_inv_def emit_no_listeners)
  have "min (example_delay k * 2) 5000 = example_delay (Suc k)"
    by (simp add: example_delay_def)
  then show ?thesis
    using assms
    by (simp add: retry_inv_def retry_socket_def close_then_retry_def on_close_world e Let_def
        set_timeout_def stopHeartbeat_def assign_ws_def fire_def connectOnce_def
        split: option.splits)
qed

lemma retry_inv_iter: "retry_inv k ((close_then_retry B ev ^^ k) backoff_world)"
  by (induction k) (simp_all add: retry_inv_start retry_inv_step)

text \<open>
  C3. The close handler reads the reconnect intent after it has emitted \<open>close\<close>. When
  the intent is set, it drops the socket, sets a timer for a new attempt with the delay
  as it was before the event, and then replaces the delay by
  \<open>min (delay * backoffFactor) maxReconnectDelay\<close>; when that timer fires, it is spent and
  the client holds a new socket for its URL, which is connecting. Whenever a timer set
  for a new attempt fires, it runs \<open>_connectOnce\<close> and leaves the client with such a
  socket. The intent is still set after \<open>close\<close> has been emitted if it was set at the
  event and no callback calls \<open>disconnect\<close>. In the example (1000, factor 2, ceiling 5000)
  the client holds a connecting socket after every number \<open>k\<close> of failed cycles and no
  timer is set; the close number \<open>k + 1\<close> in a row drops the socket and sets timer
  \<open>k + 1\<close> with delay 1000, 2000, 4000 for \<open>k = 0, 1, 2\<close> and 5000 from then on.
\<close>

theorem close_schedules_then_grows:
  "(shouldReconnect (world_of (emit B (JStr ''close'') ev Undefined w)) \<longrightarrow>
      timers (world_of (on_close B ev w)) (nextTimer (world_of (emit B (JStr ''close'') ev Undefined w)))
        = Some (Timeout (reconnectDelay w) Reconnect) \<and>
      reconnectDelay (world_of (on_close B ev w))
        = min (reconnectDelay w * backoffFactor w) (maxReconnectDelay w) \<and>
      ws (world_of (on_close B ev w)) = None \<and>
      ws (fire (nextTimer (world_of (emit B (JStr ''close'') ev Undefined w))) (world_of (on_close B ev w)))
        = Some \<lparr>ws_url = url w, readyState = CONNECTING, outbox = []\<rparr> \<and>
      timers (fire (nextTimer (world_of (emit B (JStr ''close'') ev Undefined w))) (world_of (on_close B ev w)))
        (nextTimer (world_of (emit B (JStr ''close'') ev Undefined w))) = None) \<and>
   (\<forall>t d v. timers v t = Some (Timeout d Reconnect) \<longrightarrow>
      fire t v = connectOnce (v\<lparr>timers := (timers v)(t := None)\<rparr>) \<and>
      ws (fire t v) = Some \<lparr>ws_url = url v, readyState = CONNECTING, outbox = []\<rparr> \<and>
      timers (fire t v) t = None) \<and>
   (shouldReconnect w \<and> (\<forall>cb args v. CallDisconnect \<notin> set (fst (B cb args v))) \<longrightarrow>
      shouldReconnect (world_of (emit B (JStr ''close'') ev Undefined w))) \<and>
   (\<forall>k. ws ((close_then_retry B ev ^^ k) backoff_world) = Some retry_socket \<and>
        timers ((close_then_retry B ev ^^ k) backoff_world) = Map.empty \<and>
        ws (world_of (on_close B ev ((close_then_retry B ev ^^ k) backoff_world))) = None \<and>
        timers (world_of (on_close B ev ((close_then_retry B ev ^^ k) backoff_world))) (Suc k)
          = Some (Timeout (example_delay k) Reconnect))"
proof -
  have 1: "shouldReconnect (world_of (emit B (JStr ''close'') ev Undefined w)) \<longrightarrow>
      timers (world_of (on_close B ev w)) (nextTimer (world_of (emit B (JStr ''close'') ev Undefined w)))
        = Some (Timeout (reconnectDelay w) Reconnect) \<and>
      reconnectDelay (world_of (on_close B ev w))
        = min (reconnectDelay w * backoffFactor w) (maxReconnectDelay w) \<and>
      ws (world_of (on_close B ev w)) = None \<and>
      ws (fire (nextTimer (world_of (emit B (JStr ''close'') ev Undefined w))) (world_of (on_close B ev w)))
        = Some \<lparr>ws_url = url w, readyState = CONNECTING, outbox = []\<rparr> \<and>
      timers (fire (nextTimer (world_of (emit B (JStr ''close'') ev Undefined w))) (world_of (on_close B ev w)))
        (nextTimer (world_of (emit B (JStr ''close'') ev Undefined w))) = None"
  proof
    assume a: "shouldReconnect (world_of (emit B (JStr ''close'') ev Undefined w))"
    note c = on_close_reconnect [OF a]
    note f = fire_reconnect [OF c(1)]
    from c(1) c(3) c(4) f(2) f(3) c(5)
    show "timers (world_of (on_close B ev w)) (nextTimer (world_of (emit B (JStr ''close'') ev Undefined w)))
        = Some (Timeout (reconnectDelay w) Reconnect) \<and>
      reconnectDelay (world_of (on_close B ev w))
        = min (reconnectDelay w * backoffFactor w) (maxReconnectDelay w) \<and>
      ws (world_of (on_close B ev w)) = None \<and>
      ws (fire (nextTimer (world_of (emit B (JStr ''close'') ev Undefined w))) (world_of (on_close B ev w)))
        = Some \<lparr>ws_url = url w, readyState = CONNECTING, outbox = []\<rparr> \<and>
      timers (fire (nextTimer (world_of (emit B (JStr ''close'') ev Undefined w))) (world_of (on_close B ev w)))
        (nextTimer (world_of (emit B (JStr ''close'') ev Undefined w))) = None"
      by simp
  qed
  have 2: "\<forall>t d v. timers v t = Some (Timeout d Reconnect) \<longrightarrow>
      fire t v = connectOnce (v\<lparr>timers := (timers v)(t := None)\<rparr>) \<and>
      ws (fire t v) = Some \<lparr>ws_url = url v, readyState = CONNECTING, outbox = []\<rparr> \<and>
      timers (fire t v) t = None"
    using fire_reconnect by blast
  have 3: "shouldReconnect w \<and> (\<forall>cb args v. CallDisconnect \<notin> set (fst (B cb args v))) \<longrightarrow>
      shouldReconnect (world_of (emit B (JStr ''close'') ev Undefined w))"
    using emit_intent_kept [of B w "JStr ''close''" ev Undefined] by blast
  have 4: "\<forall>k. ws ((close_then_retry B ev ^^ k) backoff_world) = Some retry_socket \<and>
        timers ((close_then_retry B ev ^^ k) backoff_world) = Map.empty \<and>
        ws (world_of (on_close B ev ((close_then_retry B ev ^^ k) backoff_world))) = None \<and>
        timers (world_of (on_close B ev ((close_then_retry B ev ^^ k) backoff_world))) (Suc k)
          = Some (Timeout (example_delay k) Reconnect)"
  proof
    fix k
    let ?w = "(close_then_retry B ev ^^ k) backoff_world"
    have i: "retry_inv k ?w" by (rule retry_inv_iter)
    then have e: "emit B (JStr ''close'') ev Undefined ?w = Done ?w"
      by (simp add: retry_inv_def emit_no_listeners)
    have s: "shouldReconnect (world_of (emit B (JStr ''close'') ev Undefined ?w))"
      using i by (simp add: e retry_inv_def)
    have a: "ws ?w = Some retry_socket" "timers ?w = Map.empty"
      using i by (simp_all add: retry_inv_def)
    have b: "ws (world_of (on_close B ev ?w)) = None"
      by (rule on_close_reconnect(4) [OF s])
    from on_close_reconnect(1) [OF s] i
    have c: "timers (world_of (on_close B ev ?w)) (Suc k) = Some (Timeout (example_delay k) Reconnect)"
      by (simp add: e retry_inv_def)
    from a b c
    show "ws ?w = Some retry_socket \<and> timers ?w = Map.empty \<and>
        ws (world_of (on_close B ev ?w)) = None \<and>
        timers (world_of (on_close B ev ?w)) (Suc k) = Some (Timeout (example_delay k) Reconnect)"
      by (intro conjI)
  qed
  from 1 2 3 4 show ?thesis by (intro conjI)
qed

theorem close_schedules_then_grows_witness:
  "shouldReconnect backoff_world \<and> (\<forall>cb args v. CallDisconnect \<notin> set (fst (quiet cb args v))) \<and>
   shouldReconnect (world_of (emit quiet (JStr ''close'') JNull Undefined backoff_world)) \<and>
   ws backoff_world = Some retry_socket \<and>
   ws (world_of (on_close quiet JNull backoff_world)) = None \<and>
   timers (world_of (on_close quiet JNull backoff_world)) 1 = Some (Timeout 1000 Reconnect) \<and>
   reconnectDelay (world_of (on_close quiet JNull backoff_world)) = 2000 \<and>
   fire 1 (world_of (on_close quiet JNull backoff_world))
     = connectOnce ((world_of (on_close quiet JNull backoff_world))
         \<lparr>timers := (timers (world_of (on_close quiet JNull backoff_world)))(1 := None)\<rparr>) \<and>
   ws (fire 1 (world_of (on_close quiet JNull backoff_world))) = Some retry_socket \<and>
   timers (fire 1 (world_of (on_close quiet JNull backoff_world))) 1 = None \<and>
   ws (close_then_retry quiet JNull backoff_world) = Some retry_socket \<and>
   timers (close_then_retry quiet JNull backoff_world) = Map.empty \<and>
   timers (world_of (on_close quiet JNull (close_then_retry quiet JNull backoff_world))) 2
     = Some (Timeout 2000 Reconnect) \<and>
   timers (world_of (on_close quiet JNull ((close_then_retry quiet JNull ^^ 2) backoff_world))) 3
     = Some (Timeout 4000 Reconnect) \<and>
   timers (world_of (on_close quiet JNull ((close_then_retry quiet JNull ^^ 3) backoff_world))) 4
     = Some (Timeout 5000 Reconnect) \<and>
   timers (world_of (on_close quiet JNull ((close_then_retry quiet JNull ^^ 4) backoff_world))) 5
     = Some (Timeout 5000 Reconnect)"
proof -
  have f: "listeners backoff_world = Map.empty" "anyListeners backoff_world = []"
    "shouldReconnect backoff_world" "nextTimer backoff_world = 1"
    "reconnectDelay backoff_world = 1000" "backoffFactor backoff_world = 2"
    "maxReconnectDelay backoff_world = 5000" "url backoff_world = ''ws://localhost:8000/ws''"
    by (simp_all add: backoff_world_def backoff_opts_def constructor_def connect_def
        connectOnce_def assign_ws_def or_default_def)
  have e: "emit quiet (JStr ''close'') JNull Undefined backoff_world = Done backoff_world"
    by (simp add: emit_no_listeners f)
  note t = close_schedules_then_grows [of quiet JNull backoff_world]
  from t have g: "ws ((close_then_retry quiet JNull ^^ k) backoff_world) = Some retry_socket \<and>
        timers ((close_then_retry quiet JNull ^^ k) backoff_world) = Map.empty \<and>
        timers (world_of (on_close quiet JNull ((close_then_retry quiet JNull ^^ k) backoff_world))) (Suc k)
        = Some (Timeout (example_delay k) Reconnect)" for k
    by blast
  from t have h: "timers v n = Some (Timeout d Reconnect) \<Longrightarrow>
      fire n v = connectOnce (v\<lparr>timers := (timers v)(n := None)\<rparr>)" for v n d
    by blast
  from t have c: "timers (world_of (on_close quiet JNull backoff_world)) 1 = Some (Timeout 1000 Reconnect)"
    by (simp add: e f)
  have a: "shouldReconnect backoff_world \<and> (\<forall>cb args v. CallDisconnect \<notin> set (fst (quiet cb args v))) \<and>
   shouldReconnect (world_of (emit quiet (JStr ''close'') JNull Undefined backoff_world)) \<and>
   ws backoff_world = Some retry_socket \<and>
   ws (world_of (on_close quiet JNull backoff_world)) = None \<and>
   timers (world_of (on_close quiet JNull backoff_world)) 1 = Some (Timeout 1000 Reconnect) \<and>
   reconnectDelay (world_of (on_close quiet JNull backoff_world)) = 2000 \<and>
   ws (fire 1 (world_of (on_close quiet JNull backoff_world))) = Some retry_socket \<and>
   timers (fire 1 (world_of (on_close quiet JNull backoff_world))) 1 = None \<and>
   ws (close_then_retry quiet JNull backoff_world) = Some retry_socket \<and>
   timers (close_then_retry quiet JNull backoff_world) = Map.empty \<and>
   timers (world_of (on_close quiet JNull (close_then_retry quiet JNull backoff_world))) 2
     = Some (Timeout 2000 Reconnect) \<and>
   timers (world_of (on_close quiet JNull ((close_then_retry quiet JNull ^^ 2) backoff_world))) 3
     = Some (Timeout 4000 Reconnect) \<and>
   timers (world_of (on_close quiet JNull ((close_then_retry quiet JNull ^^ 3) backoff_world))) 4
     = Some (Timeout 5000 Reconnect) \<and>
   timers (world_of (on_close quiet JNull ((close_then_retry quiet JNull ^^ 4) backoff_world))) 5
     = Some (Timeout 5000 Reconnect)"
    using t [THEN conjunct1] g [of 0] g [of 1] g [of 2] g [of 3] g [of 4]
    by (simp add: e f example_delay_def quiet_def retry_socket_def numeral_2_eq_2 numeral_3_eq_3
        eval_nat_numeral)
  from a h [OF c] show ?thesis by blast
qed

subsection \<open>What every run keeps\<close>

text \<open>
  Each of the properties holds of a constructed client and is kept by every method, by
  every handler whatever the callbacks do, and by every timer. First \<open>well_formed\<close>.
\<close>

lemma well_formed_constructor: "well_formed (constructor u options objects)"
  by (simp add: well_formed_def constructor_def)

lemma well_formed_trace [simp]:
  "well_formed (w\<lparr>trace := x\<rparr>) = well_formed w"
  "well_formed (w\<lparr>console := y\<rparr>) = well_formed w"
  "well_formed (w\<lparr>shouldReconnect := b\<rparr>) = well_formed w"
  "well_formed (w\<lparr>ws := v\<rparr>) = well_formed w"
  "well_formed (w\<lparr>reconnectDelay := d\<rparr>) = well_formed w"
  "well_formed (w\<lparr>clock := n\<rparr>) = well_formed w"
  "well_formed (w\<lparr>store := objects\<rparr>) = well_formed w"
  by (simp_all add: well_formed_def)

lemma well_formed_stopHeartbeat: "well_formed w \<Longrightarrow> well_formed (stopHeartbeat w)"
  by (auto simp: well_formed_def stopHeartbeat_def split: option.splits)

lemma well_formed_assign_ws [simp]: "well_formed (assign_ws v w) = well_formed w"
  by (simp add: well_formed_def assign_ws_def split: option.splits)

lemma well_formed_send: "well_formed w \<Longrightarrow> well_formed (snd (send a options w))"
  unfolding well_formed_def
  by (simp add: send_def Let_def new_promise_def set_timeout_def split: option.splits)
     (metis less_Suc_eq nat_neq_iff)

lemma well_formed_disconnect: "well_formed w \<Longrightarrow> well_formed (disconnect w)"
  by (simp add: disconnect_def Let_def well_formed_stopHeartbeat split: option.splits)

lemma well_formed_run_action: "well_formed w \<Longrightarrow> well_formed (run_action a w)"
  by (cases a)
     (simp_all add: well_formed_send well_formed_disconnect,
      simp_all add: well_formed_def on_def off_def connect_def connectOnce_def assign_ws_def Let_def
        split: option.splits)

lemma well_formed_emit:
  "well_formed w \<Longrightarrow> well_formed (world_of (emit B eventType payload full w))"
  by (rule emit_preserves [of B well_formed]) (simp_all add: well_formed_run_action)

lemma well_formed_startHeartbeat: "well_formed w \<Longrightarrow> well_formed (startHeartbeat w)"
  by (fastforce simp: well_formed_def startHeartbeat_def stopHeartbeat_def Let_def less_Suc_eq
      split: option.splits)

lemma well_formed_on_open: "well_formed w \<Longrightarrow> well_formed (world_of (on_open B w))"
  using well_formed_emit [of "w\<lparr>reconnectDelay := 1000\<rparr>" B "JStr ''open''" Undefined Undefined]
  by (simp add: on_open_def seq_emit well_formed_startHeartbeat)

lemma well_formed_set_timeout:
  "well_formed w \<Longrightarrow> well_formed (snd (set_timeout f d w))"
  by (auto simp: well_formed_def set_timeout_def less_Suc_eq)

lemma well_formed_on_close: "well_formed w \<Longrightarrow> well_formed (world_of (on_close B ev w))"
  using well_formed_emit [of w B "JStr ''close''" ev Undefined]
  by (simp add: on_close_world Let_def well_formed_stopHeartbeat well_formed_set_timeout)

lemma well_formed_on_error: "well_formed w \<Longrightarrow> well_formed (world_of (on_error B err w))"
  by (simp add: on_error_def well_formed_emit)

lemma well_formed_dispatch:
  "well_formed w \<Longrightarrow> well_formed (world_of (dispatch B type payload data w))"
  by (rule dispatch_preserves [of B well_formed]) (simp_all add: well_formed_run_action)

lemma well_formed_resolve:
  "well_formed w \<Longrightarrow> well_formed (pendingAcks_delete k (resolver_resolve r payload w))"
  by (auto simp: well_formed_def pendingAcks_delete_def resolver_resolve_def settle_def
      clear_timeout_def split: jsval.splits option.splits settlement.splits if_splits)

text \<open>
  The \<open>try\<close> block of the message handler ends in one of three ways: it throws before
  anything has changed, it resolves an entry of the table, or it dispatches.
\<close>

lemma message_try_shape:
  "(\<exists>e. message_try B msg w = Thrown e w) \<or>
   (\<exists>rid r p. pendingAcks w rid = Some r \<and>
      message_try B msg w = Done (pendingAcks_delete (JStr rid) (resolver_resolve r p w))) \<or>
   (\<exists>t p d. message_try B msg w = dispatch B t p d w)"
proof (cases msg)
  case (Malformed e)
  then show ?thesis by (simp add: message_try_def)
next
  case (Parsed data)
  show ?thesis
  proof (cases "data = JNull \<or> data = Undefined")
    case True
    with Parsed show ?thesis by (simp add: message_try_def)
  next
    case False
    show ?thesis
    proof (cases "js_field ''type'' data = JStr ''ack'' \<and> truthy (js_field ''request_id'' data)")
      case ack: True
      show ?thesis
      proof (cases "pendingAcks_get w (js_field ''request_id'' data)")
        case None
        with Parsed False ack
        have "message_try B msg w = dispatch B (JStr ''ack'') (js_field ''payload'' data) data w"
          by (simp add: message_try_def Let_def)
        then show ?thesis by blast
      next
        case (Some r)
        then obtain rid where k: "js_field ''request_id'' data = JStr rid" "pendingAcks w rid = Some r"
          by (auto simp: pendingAcks_get_def split: jsval.splits)
        with Parsed False ack Some
        have "message_try B msg w = Done (pendingAcks_delete (JStr rid)
                 (resolver_resolve r (js_field ''payload'' data) w))"
          by (simp add: message_try_def Let_def)
        with k(2) show ?thesis by blast
      qed
    next
      case other: False
      with Parsed False
      have "message_try B msg w = dispatch B (js_field ''type'' data) (js_field ''payload'' data) data w"
        by (auto simp add: message_try_def Let_def)
      then show ?thesis by blast
    qed
  qed
qed

lemma well_formed_on_message:
  assumes "well_formed w"
  shows "well_formed (world_of (on_message B msg w))"
proof -
  consider (throws) e where "message_try B msg w = Thrown e w"
    | (acked) k r p where "message_try B msg w = Done (pendingAcks_delete k (resolver_resolve r p w))"
    | (dispatched) t p d where "message_try B msg w = dispatch B t p d w"
    using message_try_shape [of B msg w] by blast
  then show ?thesis
  proof cases
    case throws
    then show ?thesis
      using assms by (simp add: on_message_def try_catch_def well_formed_emit)
  next
    case acked
    then show ?thesis
      using assms by (simp add: on_message_def try_catch_def well_formed_resolve)
  next
    case dispatched
    obtain w1 where 1: "dispatch B t p d w = Done w1"
      using dispatch_Done by blast
    with well_formed_dispatch [OF assms, of B t p d] have "well_formed w1" by simp
    with dispatched 1 show ?thesis
      by (simp add: on_message_def try_catch_def)
  qed
qed

lemma well_formed_fire: "well_formed w \<Longrightarrow> well_formed (fire t w)"
proof -
  assume a: "well_formed w"
  have r: "well_formed (run_timer f v)" if "well_formed v" for f v
    using that
    by (cases f)
       (auto simp: well_formed_def connectOnce_def assign_ws_def settle_def heartbeat_tick_def
          split: option.splits settlement.splits)
  have c: "well_formed (w\<lparr>timers := x\<rparr>)" for x
    using a by (simp add: well_formed_def)
  show ?thesis
    by (simp add: fire_def a r c split: option.splits timer.splits)
qed

text \<open>
  Then \<open>entries_armed\<close>. An awaiting \<open>send\<close> adds an entry with a new promise and a new
  timer; an acknowledgement and a timeout drop one entry, its timer and the pending
  state of its promise; everything else leaves the table and the promises alone and
  changes only timers that belong to no entry.
\<close>

lemma entries_armed_constructor: "entries_armed (constructor u options objects)"
  by (simp add: entries_armed_def constructor_def)

lemma entries_armed_trace [simp]:
  "entries_armed (w\<lparr>trace := x\<rparr>) = entries_armed w"
  "entries_armed (w\<lparr>console := y\<rparr>) = entries_armed w"
  "entries_armed (w\<lparr>shouldReconnect := b\<rparr>) = entries_armed w"
  "entries_armed (w\<lparr>ws := v\<rparr>) = entries_armed w"
  "entries_armed (w\<lparr>reconnectDelay := d\<rparr>) = entries_armed w"
  "entries_armed (w\<lparr>clock := n\<rparr>) = entries_armed w"
  "entries_armed (w\<lparr>store := objects\<rparr>) = entries_armed w"
  "entries_armed (w\<lparr>listeners := l\<rparr>) = entries_armed w"
  "entries_armed (w\<lparr>anyListeners := al\<rparr>) = entries_armed w"
  "entries_armed (w\<lparr>nextRequestId := n\<rparr>) = entries_armed w"
  "entries_armed (w\<lparr>released := rel\<rparr>) = entries_armed w"
  by (simp_all add: entries_armed_def)

lemma entries_armed_assign_ws [simp]: "entries_armed (assign_ws v w) = entries_armed w"
  by (simp add: assign_ws_def split: option.splits)

lemma entries_armed_await:
  assumes wf: "well_formed w" and ea: "entries_armed w"
    and pa: "pendingAcks w' = (pendingAcks w)(rid \<mapsto> \<lparr>res_timer = nextTimer w, res_promise = nextPromise w\<rparr>)"
    and pr: "promises w' = (promises w)(nextPromise w \<mapsto> Pending)"
    and np: "nextPromise w' = Suc (nextPromise w)"
    and ti: "timers w' = (timers w)(nextTimer w \<mapsto> Timeout d (AckTimeout rid (nextPromise w)))"
    and nt: "nextTimer w' = Suc (nextTimer w)"
  shows "entries_armed w'"
proof -
  have lt: "res_timer r < nextTimer w" if "pendingAcks w k = Some r" for k r
    using wf that by (auto simp: well_formed_def)
  have lp: "res_promise r < nextPromise w" if "pendingAcks w k = Some r" for k r
    using ea that by (auto simp: entries_armed_def)
  have pend: "promises w (res_promise r) = Some Pending" if "pendingAcks w k = Some r" for k r
    using ea that by (auto simp: entries_armed_def)
  have arm: "\<exists>d. timers w (res_timer r) = Some (Timeout d (AckTimeout k (res_promise r)))"
    if "pendingAcks w k = Some r" for k r
    using ea that by (auto simp: entries_armed_def)
  have inj: "k1 = k2" if "pendingAcks w k1 = Some r1" "pendingAcks w k2 = Some r2"
    "res_promise r1 = res_promise r2" for k1 r1 k2 r2
    using ea that unfolding entries_armed_def by blast
  have tm: "t < nextTimer w \<and> p < nextPromise w \<and>
      (\<forall>k2 r2. pendingAcks w k2 = Some r2 \<and> res_promise r2 = p \<longrightarrow> k2 = k \<and> res_timer r2 = t)"
    if "timers w t = Some (Timeout d' (AckTimeout k p))" for t d' k p
    using ea that unfolding entries_armed_def by blast
  have iv: "f = Heartbeat" if "timers w t = Some (Interval d' f)" for t d' f
    using ea that unfolding entries_armed_def by blast
  have 1: "res_promise r < nextPromise w' \<and> promises w' (res_promise r) = Some Pending \<and>
        (\<exists>d. timers w' (res_timer r) = Some (Timeout d (AckTimeout k (res_promise r))))"
    if a: "pendingAcks w' k = Some r" for k r
  proof (cases "k = rid")
    case True
    with a have "r = \<lparr>res_timer = nextTimer w, res_promise = nextPromise w\<rparr>"
      by (simp add: pa)
    with True show ?thesis by (simp add: pr np ti)
  next
    case False
    with a have o: "pendingAcks w k = Some r" by (simp add: pa)
    from lt [OF o] lp [OF o] pend [OF o] arm [OF o] show ?thesis
      by (auto simp: pr np ti)
  qed
  have 2: "k1 = k2"
    if a: "pendingAcks w' k1 = Some r1" "pendingAcks w' k2 = Some r2"
      "res_promise r1 = res_promise r2" for k1 r1 k2 r2
  proof -
    have n: "res_promise r = nextPromise w" if "pendingAcks w' rid = Some r" for r
      using that by (auto simp: pa)
    have o: "pendingAcks w k = Some r" if "pendingAcks w' k = Some r" "k \<noteq> rid" for k r
      using that by (simp add: pa)
    show ?thesis
    proof (cases "k1 = rid")
      case k1: True
      show ?thesis
      proof (cases "k2 = rid")
        case True with k1 show ?thesis by simp
      next
        case False
        from lp [OF o [OF a(2) False]] n [of r1] a k1 show ?thesis by simp
      qed
    next
      case k1: False
      show ?thesis
      proof (cases "k2 = rid")
        case True
        from lp [OF o [OF a(1) k1]] n [of r2] a True show ?thesis by simp
      next
        case False
        from inj [OF o [OF a(1) k1] o [OF a(2) False] a(3)] show ?thesis .
      qed
    qed
  qed
  have 3: "t < nextTimer w' \<and> p < nextPromise w' \<and>
        (\<forall>k2 r2. pendingAcks w' k2 = Some r2 \<and> res_promise r2 = p \<longrightarrow>
           k2 = k \<and> res_timer r2 = t)"
    if a: "timers w' t = Some (Timeout d' (AckTimeout k p))" for t d' k p
  proof (cases "t = nextTimer w")
    case True
    with a have e: "k = rid" "p = nextPromise w" by (auto simp: ti)
    have "k2 = rid \<and> res_timer r2 = nextTimer w"
      if b: "pendingAcks w' k2 = Some r2" "res_promise r2 = nextPromise w" for k2 r2
    proof (cases "k2 = rid")
      case True with b show ?thesis by (auto simp: pa)
    next
      case False
      with b have "pendingAcks w k2 = Some r2" by (simp add: pa)
      from lp [OF this] b(2) show ?thesis by simp
    qed
    with True e show ?thesis by (auto simp: nt np)
  next
    case False
    with a have o: "timers w t = Some (Timeout d' (AckTimeout k p))" by (simp add: ti)
    note m = tm [OF o]
    have "k2 = k \<and> res_timer r2 = t"
      if b: "pendingAcks w' k2 = Some r2" "res_promise r2 = p" for k2 r2
    proof (cases "k2 = rid")
      case True
      with b have "p = nextPromise w" by (auto simp: pa)
      with m show ?thesis by simp
    next
      case False
      with b have "pendingAcks w k2 = Some r2" by (simp add: pa)
      with m b(2) show ?thesis by blast
    qed
    with m show ?thesis by (auto simp: nt np)
  qed
  have 4: "f = Heartbeat" if "timers w' t = Some (Interval d' f)" for t d' f
    using that iv by (auto simp: ti split: if_splits)
  show ?thesis
    unfolding entries_armed_def using 1 2 3 4 by blast
qed

lemma entries_armed_drop:
  assumes ea: "entries_armed w"
    and pa: "pendingAcks w' = (pendingAcks w)(rid := None)"
    and ti: "\<And>t. timers w' t = None \<or> timers w' t = timers w t"
    and pr: "\<And>q. q \<noteq> p \<Longrightarrow> promises w' q = promises w q"
    and ot: "\<And>k r. k \<noteq> rid \<Longrightarrow> pendingAcks w k = Some r \<Longrightarrow>
               res_promise r \<noteq> p \<and> timers w' (res_timer r) = timers w (res_timer r)"
    and np: "nextPromise w' = nextPromise w"
    and nt: "nextTimer w' = nextTimer w"
  shows "entries_armed w'"
proof -
  have o: "pendingAcks w k = Some r \<and> k \<noteq> rid" if "pendingAcks w' k = Some r" for k r
    using that by (auto simp: pa split: if_splits)
  have 1: "res_promise r < nextPromise w' \<and> promises w' (res_promise r) = Some Pending \<and>
        (\<exists>d. timers w' (res_timer r) = Some (Timeout d (AckTimeout k (res_promise r))))"
    if a: "pendingAcks w' k = Some r" for k r
  proof -
    from o [OF a] have b: "pendingAcks w k = Some r" "k \<noteq> rid" by simp_all
    from ea b(1) have "res_promise r < nextPromise w" "promises w (res_promise r) = Some Pending"
      "\<exists>d. timers w (res_timer r) = Some (Timeout d (AckTimeout k (res_promise r)))"
      by (auto simp: entries_armed_def)
    with ot [OF b(2) b(1)] pr [of "res_promise r"] show ?thesis
      by (simp add: np)
  qed
  have 2: "k1 = k2"
    if "pendingAcks w' k1 = Some r1" "pendingAcks w' k2 = Some r2"
      "res_promise r1 = res_promise r2" for k1 r1 k2 r2
    using ea o [OF that(1)] o [OF that(2)] that(3) unfolding entries_armed_def by blast
  have 3: "t < nextTimer w' \<and> q < nextPromise w' \<and>
        (\<forall>k2 r2. pendingAcks w' k2 = Some r2 \<and> res_promise r2 = q \<longrightarrow>
           k2 = k \<and> res_timer r2 = t)"
    if a: "timers w' t = Some (Timeout d' (AckTimeout k q))" for t d' k q
  proof -
    from a ti [of t] have "timers w t = Some (Timeout d' (AckTimeout k q))" by auto
    with ea have m: "t < nextTimer w \<and> q < nextPromise w \<and>
      (\<forall>k2 r2. pendingAcks w k2 = Some r2 \<and> res_promise r2 = q \<longrightarrow> k2 = k \<and> res_timer r2 = t)"
      unfolding entries_armed_def by blast
    then show ?thesis using o by (auto simp: np nt)
  qed
  have 4: "f = Heartbeat" if a: "timers w' t = Some (Interval d' f)" for t d' f
  proof -
    from a ti [of t] have "timers w t = Some (Interval d' f)" by auto
    with ea show ?thesis unfolding entries_armed_def by blast
  qed
  show ?thesis
    unfolding entries_armed_def using 1 2 3 4 by blast
qed

lemma entries_armed_resolve:
  assumes ea: "entries_armed w" and e: "pendingAcks w rid = Some r"
  shows "entries_armed (pendingAcks_delete (JStr rid) (resolver_resolve r payload w))"
proof (rule entries_armed_drop [OF ea, of _ rid "res_promise r"])
  let ?w' = "pendingAcks_delete (JStr rid) (resolver_resolve r payload w)"
  show "pendingAcks ?w' = (pendingAcks w)(rid := None)"
    by (simp add: pendingAcks_delete_def resolver_resolve_def settle_def clear_timeout_def
        split: option.splits settlement.splits)
  show t: "timers ?w' t = None \<or> timers ?w' t = timers w t" for t
    by (simp add: pendingAcks_delete_def resolver_resolve_def settle_def clear_timeout_def
        split: option.splits settlement.splits)
  show "promises ?w' q = promises w q" if "q \<noteq> res_promise r" for q
    using that
    by (simp add: pendingAcks_delete_def resolver_resolve_def settle_def clear_timeout_def
        split: option.splits settlement.splits)
  show "nextPromise ?w' = nextPromise w" "nextTimer ?w' = nextTimer w"
    by (simp_all add: pendingAcks_delete_def resolver_resolve_def settle_def clear_timeout_def
        split: option.splits settlement.splits)
  show "res_promise r' \<noteq> res_promise r \<and> timers ?w' (res_timer r') = timers w (res_timer r')"
    if "k \<noteq> rid" "pendingAcks w k = Some r'" for k r'
  proof -
    from ea e that have p: "res_promise r' \<noteq> res_promise r"
      unfolding entries_armed_def by blast
    from ea e obtain d where 1: "timers w (res_timer r) = Some (Timeout d (AckTimeout rid (res_promise r)))"
      unfolding entries_armed_def by blast
    from ea that(2) obtain d' where 2: "timers w (res_timer r') = Some (Timeout d' (AckTimeout k (res_promise r')))"
      unfolding entries_armed_def by blast
    from 1 2 that(1) have "res_timer r' \<noteq> res_timer r" by auto
    then have "timers ?w' (res_timer r') = timers w (res_timer r')"
      by (simp add: pendingAcks_delete_def resolver_resolve_def settle_def clear_timeout_def
          split: option.splits settlement.splits)
    with p show ?thesis by simp
  qed
qed

lemma entries_armed_ack_timeout:
  assumes ea: "entries_armed w" and t: "timers w t = Some (Timeout d (AckTimeout rid p))"
  shows "entries_armed (run_timer (AckTimeout rid p) (w\<lparr>timers := (timers w)(t := None)\<rparr>))"
proof (rule entries_armed_drop [OF ea, of _ rid p])
  let ?w' = "run_timer (AckTimeout rid p) (w\<lparr>timers := (timers w)(t := None)\<rparr>)"
  show "pendingAcks ?w' = (pendingAcks w)(rid := None)"
    by (simp add: settle_def split: option.splits settlement.splits)
  show "timers ?w' t' = None \<or> timers ?w' t' = timers w t'" for t'
    by (simp add: settle_def split: option.splits settlement.splits)
  show "promises ?w' q = promises w q" if "q \<noteq> p" for q
    using that by (simp add: settle_def split: option.splits settlement.splits)
  show "nextPromise ?w' = nextPromise w" "nextTimer ?w' = nextTimer w"
    by (simp_all add: settle_def split: option.splits settlement.splits)
  show "res_promise r' \<noteq> p \<and> timers ?w' (res_timer r') = timers w (res_timer r')"
    if "k \<noteq> rid" "pendingAcks w k = Some r'" for k r'
  proof -
    from ea t that have p: "res_promise r' \<noteq> p"
      unfolding entries_armed_def by blast
    from ea that(2) obtain d' where 2: "timers w (res_timer r') = Some (Timeout d' (AckTimeout k (res_promise r')))"
      unfolding entries_armed_def by blast
    from t 2 that(1) have "res_timer r' \<noteq> t" by auto
    then have "timers ?w' (res_timer r') = timers w (res_timer r')"
      by (simp add: settle_def split: option.splits settlement.splits)
    with p show ?thesis by simp
  qed
qed

lemma well_formed_entry:
  "well_formed w \<Longrightarrow> pendingAcks w k = Some r \<Longrightarrow>
     res_timer r < nextTimer w \<and> heartbeatTimer w \<noteq> Some (res_timer r)"
  unfolding well_formed_def by blast

lemma entries_armed_timers:
  assumes ea: "entries_armed w"
    and pa: "pendingAcks w' = pendingAcks w"
    and pr: "promises w' = promises w"
    and np: "nextPromise w' = nextPromise w"
    and nt: "nextTimer w \<le> nextTimer w'"
    and keep: "\<And>k r. pendingAcks w k = Some r \<Longrightarrow> timers w' (res_timer r) = timers w (res_timer r)"
    and new: "\<And>t x. timers w' t = Some x \<Longrightarrow>
                timers w t = Some x \<or> (\<exists>d. x = Interval d Heartbeat \<or> x = Timeout d Reconnect)"
  shows "entries_armed w'"
proof -
  have 1: "res_promise r < nextPromise w' \<and> promises w' (res_promise r) = Some Pending \<and>
        (\<exists>d. timers w' (res_timer r) = Some (Timeout d (AckTimeout k (res_promise r))))"
    if a: "pendingAcks w' k = Some r" for k r
    using ea a keep [of k r] by (auto simp: entries_armed_def pa pr np)
  have 2: "k1 = k2"
    if "pendingAcks w' k1 = Some r1" "pendingAcks w' k2 = Some r2"
      "res_promise r1 = res_promise r2" for k1 r1 k2 r2
    using ea that unfolding entries_armed_def pa by blast
  have 3: "t < nextTimer w' \<and> q < nextPromise w' \<and>
        (\<forall>k2 r2. pendingAcks w' k2 = Some r2 \<and> res_promise r2 = q \<longrightarrow>
           k2 = k \<and> res_timer r2 = t)"
    if a: "timers w' t = Some (Timeout d' (AckTimeout k q))" for t d' k q
  proof -
    from new [OF a] have "timers w t = Some (Timeout d' (AckTimeout k q))" by auto
    with ea have "t < nextTimer w \<and> q < nextPromise w \<and>
      (\<forall>k2 r2. pendingAcks w k2 = Some r2 \<and> res_promise r2 = q \<longrightarrow> k2 = k \<and> res_timer r2 = t)"
      unfolding entries_armed_def by blast
    then show ?thesis using nt by (auto simp: np pa)
  qed
  have 4: "f = Heartbeat" if a: "timers w' t = Some (Interval d' f)" for t d' f
  proof -
    from new [OF a] have "timers w t = Some (Interval d' f) \<or> f = Heartbeat" by auto
    with ea show ?thesis unfolding entries_armed_def by blast
  qed
  show ?thesis
    unfolding entries_armed_def using 1 2 3 4 by blast
qed

lemma entries_armed_stopHeartbeat:
  assumes "well_formed w" "entries_armed w"
  shows "entries_armed (stopHeartbeat w)"
proof (rule entries_armed_timers [OF assms(2)])
  show "timers (stopHeartbeat w) (res_timer r) = timers w (res_timer r)"
    if "pendingAcks w k = Some r" for k r
    using well_formed_entry [OF assms(1) that] by (auto simp: stopHeartbeat_def split: option.splits)
  show "timers w t = Some x \<or> (\<exists>d. x = Interval d Heartbeat \<or> x = Timeout d Reconnect)"
    if "timers (stopHeartbeat w) t = Some x" for t x
    using that by (auto simp: stopHeartbeat_def split: option.splits if_splits)
qed (simp_all add: stopHeartbeat_def split: option.splits)

lemma entries_armed_startHeartbeat:
  assumes "well_formed w" "entries_armed w"
  shows "entries_armed (startHeartbeat w)"
proof (rule entries_armed_timers [OF assms(2)])
  show "timers (startHeartbeat w) (res_timer r) = timers w (res_timer r)"
    if "pendingAcks w k = Some r" for k r
    using well_formed_entry [OF assms(1) that]
    by (auto simp: startHeartbeat_def stopHeartbeat_def Let_def split: option.splits)
  show "timers w t = Some x \<or> (\<exists>d. x = Interval d Heartbeat \<or> x = Timeout d Reconnect)"
    if "timers (startHeartbeat w) t = Some x" for t x
    using that
    by (auto simp: startHeartbeat_def stopHeartbeat_def Let_def split: option.splits if_splits)
qed (simp_all add: startHeartbeat_def stopHeartbeat_def Let_def split: option.splits)

lemma entries_armed_set_reconnect:
  assumes "well_formed w" "entries_armed w"
  shows "entries_armed (snd (set_timeout Reconnect d w))"
proof (rule entries_armed_timers [OF assms(2)])
  show "timers (snd (set_timeout Reconnect d w)) (res_timer r) = timers w (res_timer r)"
    if "pendingAcks w k = Some r" for k r
    using well_formed_entry [OF assms(1) that] by (auto simp: set_timeout_def)
  show "timers w t = Some x \<or> (\<exists>d. x = Interval d Heartbeat \<or> x = Timeout d Reconnect)"
    if "timers (snd (set_timeout Reconnect d w)) t = Some x" for t x
    using that by (auto simp: set_timeout_def split: if_splits)
qed (simp_all add: set_timeout_def)

lemma entries_armed_spent:
  assumes ea: "entries_armed w" and t: "timers w t = Some (Timeout d f)" "\<forall>rid p. f \<noteq> AckTimeout rid p"
  shows "entries_armed (w\<lparr>timers := (timers w)(t := None)\<rparr>)"
proof (rule entries_armed_timers [OF ea])
  show "timers (w\<lparr>timers := (timers w)(t := None)\<rparr>) (res_timer r) = timers w (res_timer r)"
    if "pendingAcks w k = Some r" for k r
  proof -
    from ea that obtain d' where "timers w (res_timer r) = Some (Timeout d' (AckTimeout k (res_promise r)))"
      unfolding entries_armed_def by blast
    with t have "res_timer r \<noteq> t" by auto
    then show ?thesis by simp
  qed
  show "timers w t' = Some x \<or> (\<exists>d. x = Interval d Heartbeat \<or> x = Timeout d Reconnect)"
    if "timers (w\<lparr>timers := (timers w)(t := None)\<rparr>) t' = Some x" for t' x
    using that by (auto split: if_splits)
qed simp_all

lemma entries_armed_connectOnce [simp]: "entries_armed (connectOnce w) = entries_armed w"
  by (simp add: connectOnce_def)

lemma entries_armed_heartbeat_tick [simp]: "entries_armed (heartbeat_tick w) = entries_armed w"
  by (simp add: heartbeat_tick_def split: option.splits)

lemma entries_armed_send:
  assumes "well_formed w" "entries_armed w"
  shows "entries_armed (snd (send a options w))"
proof (cases "\<exists>sock. ws w = Some sock \<and> readyState sock = OPEN")
  case False
  then have "snd (send a options w) = w"
    by (auto simp: send_def split: option.splits)
  with assms show ?thesis by simp
next
  case True
  then obtain sock where s: "ws w = Some sock" "readyState sock = OPEN" by blast
  show ?thesis
  proof (cases "awaitAck options = Some True")
    case False
    then have "\<not> (case awaitAck options of None \<Rightarrow> False | Some b \<Rightarrow> b)"
      by (cases "awaitAck options") auto
    with s assms(2) show ?thesis by (simp add: send_def Let_def)
  next
    case True
    let ?w1 = "w\<lparr>nextRequestId := js_incr (nextRequestId w)\<rparr>"
    have 1: "well_formed ?w1" "entries_armed ?w1"
      using assms by (simp_all add: well_formed_def)
    show ?thesis
      by (rule entries_armed_await [OF 1, where rid = "String_of (nextRequestId w)"
            and d = "case timeout options of None \<Rightarrow> 5000 | Some d \<Rightarrow> d"])
         (simp_all add: send_def s True Let_def new_promise_def set_timeout_def)
  qed
qed

lemma entries_armed_disconnect:
  assumes "well_formed w" "entries_armed w"
  shows "entries_armed (disconnect w)"
proof -
  have "entries_armed (stopHeartbeat v)" if "well_formed v" "entries_armed v" for v
    using that by (rule entries_armed_stopHeartbeat)
  then show ?thesis
    using assms by (simp add: disconnect_def Let_def split: option.splits)
qed

lemma entries_armed_run_action:
  "well_formed w \<Longrightarrow> entries_armed w \<Longrightarrow> entries_armed (run_action a w)"
  by (cases a)
     (simp_all add: entries_armed_send entries_armed_disconnect on_def off_def connect_def Let_def
        split: option.splits)

lemma sound_run_action: "sound w \<Longrightarrow> sound (run_action a w)"
  by (simp add: sound_def well_formed_run_action entries_armed_run_action)

lemma sound_emit: "sound w \<Longrightarrow> sound (world_of (emit B eventType payload full w))"
  by (rule emit_preserves [of B sound]) (simp_all add: sound_run_action, simp_all add: sound_def)

lemma sound_dispatch: "sound w \<Longrightarrow> sound (world_of (dispatch B type payload data w))"
  by (rule dispatch_preserves [of B sound]) (simp_all add: sound_run_action, simp_all add: sound_def)

lemma sound_on_open: "sound w \<Longrightarrow> sound (world_of (on_open B w))"
proof -
  assume "sound w"
  then have "sound (w\<lparr>reconnectDelay := 1000\<rparr>)" by (simp add: sound_def)
  then have "sound (world_of (emit B (JStr ''open'') Undefined Undefined (w\<lparr>reconnectDelay := 1000\<rparr>)))"
    by (rule sound_emit)
  then show ?thesis
    by (simp add: on_open_def seq_emit sound_def well_formed_startHeartbeat entries_armed_startHeartbeat)
qed

lemma sound_stopHeartbeat: "sound w \<Longrightarrow> sound (stopHeartbeat w)"
  by (simp add: sound_def well_formed_stopHeartbeat entries_armed_stopHeartbeat)

lemma sound_on_close: "sound w \<Longrightarrow> sound (world_of (on_close B ev w))"
proof -
  assume "sound w"
  then have "sound (stopHeartbeat (world_of (emit B (JStr ''close'') ev Undefined w)))"
    by (intro sound_stopHeartbeat sound_emit)
  then have 1: "sound (assign_ws None (stopHeartbeat (world_of (emit B (JStr ''close'') ev Undefined w))))"
    by (simp add: sound_def)
  have 2: "sound (snd (set_timeout Reconnect d v))" if "sound v" for d v
    using that by (simp add: sound_def well_formed_set_timeout entries_armed_set_reconnect)
  have 3: "sound (v\<lparr>reconnectDelay := d\<rparr>)" if "sound v" for d v
    using that by (simp add: sound_def)
  show ?thesis
    using 1 by (simp add: on_close_world Let_def 2 3)
qed

lemma sound_on_error: "sound w \<Longrightarrow> sound (world_of (on_error B err w))"
  by (simp add: on_error_def sound_emit)

lemma sound_on_message:
  assumes "sound w"
  shows "sound (world_of (on_message B msg w))"
proof -
  consider (throws) e where "message_try B msg w = Thrown e w"
    | (acked) rid r p where "pendingAcks w rid = Some r"
        "message_try B msg w = Done (pendingAcks_delete (JStr rid) (resolver_resolve r p w))"
    | (dispatched) t p d where "message_try B msg w = dispatch B t p d w"
    using message_try_shape [of B msg w] by blast
  then show ?thesis
  proof cases
    case throws
    then show ?thesis
      using assms by (simp add: on_message_def try_catch_def sound_emit)
  next
    case acked
    then show ?thesis
      using assms
      by (simp add: on_message_def try_catch_def sound_def well_formed_resolve entries_armed_resolve)
  next
    case dispatched
    obtain w1 where 1: "dispatch B t p d w = Done w1"
      using dispatch_Done by blast
    with sound_dispatch [OF assms, of B t p d] have "sound w1" by simp
    with dispatched 1 show ?thesis
      by (simp add: on_message_def try_catch_def)
  qed
qed

lemma sound_fire:
  assumes "sound w"
  shows "sound (fire t w)"
proof (cases "timers w t")
  case None
  with assms show ?thesis by (simp add: fire_def)
next
  case (Some x)
  have wf: "well_formed (fire t w)"
    using assms by (simp add: sound_def well_formed_fire)
  have ea: "entries_armed w" using assms by (simp add: sound_def)
  have "entries_armed (fire t w)"
  proof (cases x)
    case (Timeout d f)
    show ?thesis
    proof (cases f)
      case Reconnect
      with Some Timeout entries_armed_spent [OF ea, of t d f] show ?thesis
        by (simp add: fire_def)
    next
      case (AckTimeout rid p)
      with Some Timeout entries_armed_ack_timeout [OF ea, of t d rid p] show ?thesis
        by (simp add: fire_def)
    next
      case Heartbeat
      with Some Timeout entries_armed_spent [OF ea, of t d f] show ?thesis
        by (simp add: fire_def)
    qed
  next
    case (Interval d f)
    with Some ea have "f = Heartbeat" unfolding entries_armed_def by blast
    with Some Interval ea show ?thesis by (simp add: fire_def)
  qed
  with wf show ?thesis by (simp add: sound_def)
qed

text \<open>
  Then \<open>ids_below\<close>: only \<open>send\<close> adds a request id, the rendering of the counter it
  increments.
\<close>

lemma ids_below_constructor: "ids_below (constructor u options objects)"
  by (simp add: ids_below_def constructor_def)

lemma ids_below_fewer:
  assumes "ids_below w" "nextRequestId w' = nextRequestId w"
    and "\<And>rid r. pendingAcks w' rid = Some r \<Longrightarrow> pendingAcks w rid = Some r"
  shows "ids_below w'"
proof -
  have "pendingAcks w' [] = None"
    using assms(1,3) by (cases "pendingAcks w' []") (auto simp: ids_below_def)
  then show ?thesis
    using assms unfolding ids_below_def by metis
qed

lemma ids_below_send: "ids_below w \<Longrightarrow> ids_below (snd (send a options w))"
proof (cases "\<exists>sock. ws w = Some sock \<and> readyState sock = OPEN")
  case False
  then have "snd (send a options w) = w"
    by (auto simp: send_def split: option.splits)
  then show "ids_below w \<Longrightarrow> ?thesis" by simp
next
  case True
  assume i: "ids_below w"
  from True obtain sock where s: "ws w = Some sock" "readyState sock = OPEN" by blast
  let ?w' = "snd (send a options w)"
  have n: "nextRequestId ?w' = js_incr (nextRequestId w)"
    using s by (simp add: send_def Let_def new_promise_def set_timeout_def split: prod.splits)
  have p: "pendingAcks w rid = Some r \<or> rid = String_of (nextRequestId w)"
    if "pendingAcks ?w' rid = Some r" for rid r
    using that s
    by (auto simp: send_def Let_def new_promise_def set_timeout_def split: prod.splits if_splits)
  have "pendingAcks ?w' [] = None"
    using i p [of "[]"] String_of_nonempty [of "nextRequestId w"]
    by (cases "pendingAcks ?w' []") (auto simp: ids_below_def)
  moreover have "nextRequestId ?w' < 2 ^ 53 \<longrightarrow>
        (\<forall>rid r. pendingAcks ?w' rid = Some r \<longrightarrow> (\<exists>k<nextRequestId ?w'. rid = String_of k))"
  proof (intro impI allI)
    fix rid r
    assume b: "nextRequestId ?w' < 2 ^ 53" and e: "pendingAcks ?w' rid = Some r"
    from b n have lt: "nextRequestId w < 2 ^ 53" and n': "nextRequestId ?w' = nextRequestId w + 1"
      by (auto simp: js_incr_def split: if_splits)
    from p [OF e] show "\<exists>k<nextRequestId ?w'. rid = String_of k"
    proof
      assume "pendingAcks w rid = Some r"
      with i lt obtain k where "k < nextRequestId w" "rid = String_of k"
        unfolding ids_below_def by blast
      with n' show ?thesis by (intro exI [of _ k]) simp
    next
      assume "rid = String_of (nextRequestId w)"
      with n' show ?thesis by (intro exI [of _ "nextRequestId w"]) simp
    qed
  qed
  ultimately show "ids_below ?w'"
    unfolding ids_below_def by (rule conjI)
qed

lemma table_frame [simp]:
  "pendingAcks (assign_ws v w) = pendingAcks w" "nextRequestId (assign_ws v w) = nextRequestId w"
  "pendingAcks (stopHeartbeat w) = pendingAcks w" "nextRequestId (stopHeartbeat w) = nextRequestId w"
  "pendingAcks (startHeartbeat w) = pendingAcks w" "nextRequestId (startHeartbeat w) = nextRequestId w"
  "pendingAcks (connectOnce w) = pendingAcks w" "nextRequestId (connectOnce w) = nextRequestId w"
  "pendingAcks (connect w) = pendingAcks w" "nextRequestId (connect w) = nextRequestId w"
  "pendingAcks (disconnect w) = pendingAcks w" "nextRequestId (disconnect w) = nextRequestId w"
  "pendingAcks (on eventType cb w) = pendingAcks w" "nextRequestId (on eventType cb w) = nextRequestId w"
  "pendingAcks (off eventType cb w) = pendingAcks w" "nextRequestId (off eventType cb w) = nextRequestId w"
  "pendingAcks (heartbeat_tick w) = pendingAcks w" "nextRequestId (heartbeat_tick w) = nextRequestId w"
  "pendingAcks (snd (set_timeout f d w)) = pendingAcks w"
  "nextRequestId (snd (set_timeout f d w)) = nextRequestId w"
  by (simp_all add: assign_ws_def stopHeartbeat_def startHeartbeat_def connectOnce_def connect_def
      disconnect_def on_def off_def heartbeat_tick_def set_timeout_def Let_def split: option.splits)

lemma ids_below_run_action: "ids_below w \<Longrightarrow> ids_below (run_action a w)"
  by (cases a) (simp_all add: ids_below_send, simp_all add: ids_below_def)

lemma ids_below_emit: "ids_below w \<Longrightarrow> ids_below (world_of (emit B eventType payload full w))"
  by (rule emit_preserves [of B ids_below])
     (simp_all add: ids_below_run_action, simp_all add: ids_below_def)

lemma ids_below_dispatch: "ids_below w \<Longrightarrow> ids_below (world_of (dispatch B type payload data w))"
  by (rule dispatch_preserves [of B ids_below])
     (simp_all add: ids_below_run_action, simp_all add: ids_below_def)

lemma ids_below_on_open: "ids_below w \<Longrightarrow> ids_below (world_of (on_open B w))"
proof -
  assume "ids_below w"
  then have "ids_below (w\<lparr>reconnectDelay := 1000\<rparr>)" by (simp add: ids_below_def)
  then have "ids_below (world_of (emit B (JStr ''open'') Undefined Undefined (w\<lparr>reconnectDelay := 1000\<rparr>)))"
    by (rule ids_below_emit)
  then show ?thesis
    by (simp add: on_open_def seq_emit ids_below_def)
qed

lemma ids_below_on_close: "ids_below w \<Longrightarrow> ids_below (world_of (on_close B ev w))"
proof -
  assume "ids_below w"
  then have 1: "ids_below (world_of (emit B (JStr ''close'') ev Undefined w))"
    by (rule ids_below_emit)
  have 2: "ids_below (v\<lparr>reconnectDelay := d\<rparr>) = ids_below v" for v d
    by (simp add: ids_below_def)
  show ?thesis
    using 1 by (simp add: on_close_world Let_def ids_below_def)
qed

lemma ids_below_on_message:
  assumes "ids_below w"
  shows "ids_below (world_of (on_message B msg w))"
proof -
  consider (throws) e where "message_try B msg w = Thrown e w"
    | (acked) rid r p where "pendingAcks w rid = Some r"
        "message_try B msg w = Done (pendingAcks_delete (JStr rid) (resolver_resolve r p w))"
    | (dispatched) t p d where "message_try B msg w = dispatch B t p d w"
    using message_try_shape [of B msg w] by blast
  then show ?thesis
  proof cases
    case throws
    then show ?thesis
      using assms by (simp add: on_message_def try_catch_def ids_below_emit)
  next
    case acked
    have "ids_below (pendingAcks_delete (JStr rid) (resolver_resolve r p w))"
      by (rule ids_below_fewer [OF assms])
         (simp_all add: pendingAcks_delete_def resolver_resolve_def settle_def clear_timeout_def
            split: option.splits settlement.splits if_splits)
    with acked show ?thesis
      by (simp add: on_message_def try_catch_def)
  next
    case dispatched
    obtain w1 where 1: "dispatch B t p d w = Done w1"
      using dispatch_Done by blast
    with ids_below_dispatch [OF assms, of B t p d] have "ids_below w1" by simp
    with dispatched 1 show ?thesis
      by (simp add: on_message_def try_catch_def)
  qed
qed

lemma ids_below_run_timer: "ids_below w \<Longrightarrow> ids_below (run_timer f w)"
proof (cases f)
  case (AckTimeout rid p)
  assume "ids_below w"
  then show ?thesis
    by (rule ids_below_fewer)
       (simp_all add: AckTimeout settle_def split: option.splits settlement.splits if_splits)
qed (simp_all add: ids_below_def)

lemma ids_below_fire: "ids_below w \<Longrightarrow> ids_below (fire t w)"
proof -
  assume a: "ids_below w"
  then have "ids_below (w\<lparr>timers := x\<rparr>)" for x
    by (simp add: ids_below_def)
  with a show ?thesis
    by (simp add: fire_def ids_below_run_timer split: option.splits timer.splits)
qed

text \<open>
  So all of them hold in every reachable world. For an entry of the table this gives:
  its timer is not the heartbeat's, its promise is pending, its timer is set with its
  request id and promise, and its request id is not empty; and the id the next \<open>send\<close>
  will use is not in the table.
\<close>

lemma reachable_sound: "reachable B w \<Longrightarrow> sound w \<and> ids_below w"
proof (induction rule: reachable.induct)
  case (constructed u options objects)
  show ?case
    by (simp add: sound_def well_formed_constructor entries_armed_constructor ids_below_constructor)
next
  case (called w a)
  then show ?case by (simp add: sound_run_action ids_below_run_action)
next
  case (socket_state w state)
  then show ?case by (simp add: sound_def ids_below_def)
next
  case (opened w)
  then show ?case by (simp add: sound_on_open ids_below_on_open)
next
  case (closed w ev)
  then show ?case by (simp add: sound_on_close ids_below_on_close)
next
  case (errored w err)
  then show ?case using ids_below_emit [of w B "JStr ''error''" err Undefined]
    by (simp add: sound_on_error) (simp add: on_error_def)
next
  case (received w msg)
  then show ?case by (simp add: sound_on_message ids_below_on_message)
next
  case (fired w t)
  then show ?case by (simp add: sound_fire ids_below_fire)
next
  case (ticked w n)
  then show ?case by (simp add: sound_def ids_below_def)
next
  case (stored w objects)
  then show ?case by (simp add: sound_def ids_below_def)
qed

lemma reachable_entry:
  assumes "reachable B w" "pendingAcks w rid = Some r"
  shows "heartbeatTimer w \<noteq> Some (res_timer r)"
    and "promises w (res_promise r) = Some Pending"
    and "res_promise r < nextPromise w"
    and "\<exists>d. timers w (res_timer r) = Some (Timeout d (AckTimeout rid (res_promise r)))"
  using reachable_sound [OF assms(1)] assms(2)
  unfolding sound_def well_formed_def entries_armed_def by blast+


lemma reachable_fresh_id:
  assumes "reachable B w" "nextRequestId w < 2 ^ 53"
  shows "pendingAcks w (String_of (nextRequestId w)) = None"
proof (rule ccontr)
  assume "pendingAcks w (String_of (nextRequestId w)) \<noteq> None"
  then obtain r where "pendingAcks w (String_of (nextRequestId w)) = Some r" by auto
  with reachable_sound [OF assms(1)] assms(2)
  obtain k where "k < nextRequestId w" "String_of (nextRequestId w) = String_of k"
    unfolding ids_below_def by blast
  then show False using String_of_inj [of "nextRequestId w" k] by simp
qed

lemma reachable_no_star: "reachable B w \<Longrightarrow> listeners_get w (JStr ''*'') = None"
  using reachable_sound [of B w] by (simp add: sound_def well_formed_def listeners_get_def)

text \<open>The worlds of the examples are reachable.\<close>

lemma reachable_examples:
  "reachable quiet idle_world" "reachable quiet open_world" "reachable quiet awaiting_world"
  "reachable quiet tagged_world"
proof -
  show i: "reachable quiet idle_world"
    unfolding idle_world_def by (rule reachable.constructed)
  have "reachable quiet (run_action CallConnect idle_world)"
    using i by (rule reachable.called)
  then have "reachable quiet ((connect idle_world)\<lparr>ws :=
      map_option (\<lambda>sock. sock\<lparr>readyState := OPEN\<rparr>) (ws (connect idle_world))\<rparr>)"
    using reachable.socket_state [of quiet "connect idle_world" OPEN] by simp
  then show o: "reachable quiet open_world"
    unfolding open_world_def socket_opens_def by (rule reachable.opened)
  show "reachable quiet awaiting_world"
    using reachable.called [OF o, of "CallSend 0 await_opts"] by (simp add: awaiting_world_def)
  show "reachable quiet tagged_world"
    unfolding tagged_world_def using o by (rule reachable.stored)
qed

subsection \<open>Acknowledgements\<close>



lemma timeout_rejects:
  assumes "timers w t = Some (Timeout d (AckTimeout rid p))" "promises w p = Some Pending"
  shows "promises (fire t w) p = Some (Rejected (JError ''Ack timeout''))"
    and "pendingAcks (fire t w) rid = None"
    and "timers (fire t w) t = None"
    and "nextPromise (fire t w) = nextPromise w"
  using assms by (simp_all add: fire_def settle_def)

lemma late_ack_dispatched:
  assumes "pendingAcks w rid = None"
    and "js_field ''type'' data = JStr ''ack''" "js_field ''request_id'' data = JStr rid"
  shows "on_message B (Parsed data) w = dispatch B (JStr ''ack'') (js_field ''payload'' data) data w"
proof -
  have d: "data \<noteq> JNull" "data \<noteq> Undefined"
    using assms(2) by (auto simp: js_field_def)
  obtain w1 where 1: "dispatch B (JStr ''ack'') (js_field ''payload'' data) data w = Done w1"
    using dispatch_Done by blast
  have "message_try B (Parsed data) w = Done w1"
    using assms d 1 by (simp add: message_try_def pendingAcks_get_def Let_def)
  then show ?thesis
    by (simp add: on_message_def try_catch_def 1)
qed




text \<open>
  C6, as stated, fails: after the timeout the entry is gone and the promise is rejected,
  but an acknowledgement with that request id is then handed to a subscriber (here the
  wildcard listener, twice).
\<close>

theorem late_ack_reaches_subscribers:
  "promises late_world 0 = Some (Rejected (JError ''Ack timeout'')) \<and>
   pendingAcks late_world ''1'' = None \<and>
   trace late_world = [] \<and>
   trace (world_of (on_message quiet (Parsed ack_frame) late_world)) =
     [Called 2 [JStr ''ack'', JObj [(''ok'', JBool True)], ack_frame],
      Called 2 [JStr ''*'', ack_frame, Undefined]]"
proof -
  have f: "promises late_world 0 = Some (Rejected (JError ''Ack timeout''))"
    "pendingAcks late_world ''1'' = None" "trace late_world = []"
    "listeners late_world = Map.empty" "anyListeners late_world = [2]"
    by (simp_all add: late_world_def fire_def send_def on_def set_add_def open_world_eq
        idle_world_fields open_socket_def await_opts_def Let_def new_promise_def set_timeout_def
        String_of_1 settle_def)
  show ?thesis
    by (simp add: f emit_defs quiet_def ack_frame_def)
qed

text \<open>
  C6, amended. In every run, when the timer of an entry of the table of pending
  acknowledgements fires, the promise is rejected with "Ack timeout" and the entry is
  removed; an acknowledgement with that request id arriving afterwards finds no entry and
  is dispatched as any other frame is, as the event \<open>ack\<close>.
\<close>

theorem timeout_then_late_ack:
  assumes "reachable B w" "pendingAcks w rid = Some r"
    and "js_field ''type'' data = JStr ''ack''" "js_field ''request_id'' data = JStr rid"
  shows "let timed = fire (res_timer r) w
         in promises timed (res_promise r) = Some (Rejected (JError ''Ack timeout'')) \<and>
            pendingAcks timed rid = None \<and>
            on_message B (Parsed data) timed
              = dispatch B (JStr ''ack'') (js_field ''payload'' data) data timed"
proof -
  note i = reachable_entry [OF assms(1,2)]
  from i(4) obtain d where t: "timers w (res_timer r) = Some (Timeout d (AckTimeout rid (res_promise r)))"
    by blast
  note m = timeout_rejects [OF t i(2)]
  show ?thesis
    using m(1,2) late_ack_dispatched [OF m(2) assms(3,4)] by (simp add: Let_def)
qed

theorem timeout_then_late_ack_witness:
  "reachable quiet awaiting_world \<and>
   pendingAcks awaiting_world ''1'' = Some \<lparr>res_timer = 2, res_promise = 0\<rparr> \<and>
   js_field ''type'' ack_frame = JStr ''ack'' \<and> js_field ''request_id'' ack_frame = JStr ''1'' \<and>
   promises (fire 2 awaiting_world) 0 = Some (Rejected (JError ''Ack timeout'')) \<and>
   pendingAcks (fire 2 awaiting_world) ''1'' = None \<and>
   on_message quiet (Parsed ack_frame) (fire 2 awaiting_world)
     = dispatch quiet (JStr ''ack'') (JObj [(''ok'', JBool True)]) ack_frame (fire 2 awaiting_world)"
proof -
  have f: "js_field ''type'' ack_frame = JStr ''ack''" "js_field ''request_id'' ack_frame = JStr ''1''"
    by (simp_all add: ack_frame_def js_field_def)
  have p: "js_field ''payload'' ack_frame = JObj [(''ok'', JBool True)]"
    by (simp add: ack_frame_def js_field_def)
  from timeout_then_late_ack [OF reachable_examples(3) awaiting_world_fields(2) f]
    reachable_examples(3) awaiting_world_fields(2) f
  show ?thesis by (simp add: Let_def p)
qed

subsection \<open>Disconnecting\<close>

lemma disconnect_fields:
  "heartbeatTimer (disconnect w) = None"
  "\<not> shouldReconnect (disconnect w)"
  "ws (disconnect w) = None"
  "pendingAcks (disconnect w) = pendingAcks w"
  "promises (disconnect w) = promises w"
  "timers (disconnect w) = (case heartbeatTimer w of None \<Rightarrow> timers w | Some t \<Rightarrow> (timers w)(t := None))"
  by (simp_all add: disconnect_def stopHeartbeat_def assign_ws_def Let_def split: option.splits)

lemma on_close_no_reconnect:
  assumes "\<not> shouldReconnect (world_of (emit B (JStr ''close'') ev Undefined w))"
  shows "timers (world_of (on_close B ev w)) t \<noteq> None
           \<Longrightarrow> timers (world_of (on_close B ev w)) t = timers (world_of (emit B (JStr ''close'') ev Undefined w)) t"
    and "nextTimer (world_of (on_close B ev w)) = nextTimer (world_of (emit B (JStr ''close'') ev Undefined w))"
    and "reconnectDelay (world_of (on_close B ev w)) = reconnectDelay w"
  using assms emit_backoff [of B "JStr ''close''" ev Undefined w]
  by (auto simp add: on_close_world Let_def stopHeartbeat_def assign_ws_def split: option.splits if_splits)

text \<open>
  C9. \<open>disconnect\<close> clears the heartbeat timer and the reconnect intent; a close event
  whose handler still finds the intent cleared sets no timer, and it finds it cleared
  when no callback calls \<open>connect\<close>. The table of pending acknowledgements, the promises
  and every timer other than the heartbeat are left as they were. In every run, each
  entry of the table at the time of the call has a pending promise and a timer that is
  set; after \<open>disconnect\<close> that timer is set as before, with its delay, and when it
  fires the promise is rejected with "Ack timeout" and the entry is removed.
\<close>

theorem disconnect_keeps_pending:
  "heartbeatTimer (disconnect w) = None \<and>
   (\<forall>t. heartbeatTimer w = Some t \<longrightarrow> timers (disconnect w) t = None) \<and>
   \<not> shouldReconnect (disconnect w) \<and>
   (\<not> shouldReconnect (world_of (emit B (JStr ''close'') ev Undefined (disconnect w))) \<longrightarrow>
      (\<forall>t. timers (world_of (on_close B ev (disconnect w))) t \<noteq> None \<longrightarrow>
           timers (world_of (on_close B ev (disconnect w))) t
             = timers (world_of (emit B (JStr ''close'') ev Undefined (disconnect w))) t)) \<and>
   ((\<forall>cb args v. CallConnect \<notin> set (fst (B cb args v))) \<longrightarrow>
      \<not> shouldReconnect (world_of (emit B (JStr ''close'') ev Undefined (disconnect w)))) \<and>
   pendingAcks (disconnect w) = pendingAcks w \<and>
   promises (disconnect w) = promises w \<and>
   (\<forall>t. heartbeatTimer w \<noteq> Some t \<longrightarrow> timers (disconnect w) t = timers w t) \<and>
   (reachable B w \<longrightarrow>
      (\<forall>rid r. pendingAcks w rid = Some r \<longrightarrow>
         promises w (res_promise r) = Some Pending \<and>
         (\<exists>d. timers w (res_timer r) = Some (Timeout d (AckTimeout rid (res_promise r)))) \<and>
         timers (disconnect w) (res_timer r) = timers w (res_timer r) \<and>
         promises (fire (res_timer r) (disconnect w)) (res_promise r)
           = Some (Rejected (JError ''Ack timeout'')) \<and>
         pendingAcks (fire (res_timer r) (disconnect w)) rid = None))"
proof -
  have k: "timers (disconnect w) t = timers w t" if "heartbeatTimer w \<noteq> Some t" for t
    using that by (simp add: disconnect_fields split: option.splits)
  have h: "timers (disconnect w) t = None" if "heartbeatTimer w = Some t" for t
    using that by (simp add: disconnect_fields)
  have p: "promises w (res_promise r) = Some Pending \<and>
         (\<exists>d. timers w (res_timer r) = Some (Timeout d (AckTimeout rid (res_promise r)))) \<and>
         timers (disconnect w) (res_timer r) = timers w (res_timer r) \<and>
         promises (fire (res_timer r) (disconnect w)) (res_promise r)
           = Some (Rejected (JError ''Ack timeout'')) \<and>
         pendingAcks (fire (res_timer r) (disconnect w)) rid = None"
    if "reachable B w" "pendingAcks w rid = Some r" for rid r
  proof -
    note i = reachable_entry [OF that]
    from i(4) obtain d where a: "timers w (res_timer r) = Some (Timeout d (AckTimeout rid (res_promise r)))"
      by blast
    have t: "timers (disconnect w) (res_timer r) = Some (Timeout d (AckTimeout rid (res_promise r)))"
      using a k [OF i(1)] by simp
    have q: "promises (disconnect w) (res_promise r) = Some Pending"
      using i(2) by (simp add: disconnect_fields)
    from a i(2) t timeout_rejects(1,2) [OF t q] show ?thesis by simp
  qed
  have c: "timers (world_of (on_close B ev (disconnect w))) t
             = timers (world_of (emit B (JStr ''close'') ev Undefined (disconnect w))) t"
    if "\<not> shouldReconnect (world_of (emit B (JStr ''close'') ev Undefined (disconnect w)))"
      "timers (world_of (on_close B ev (disconnect w))) t \<noteq> None" for t
    using that by (rule on_close_no_reconnect(1))
  note d = disconnect_fields(1,2,4,5) [of w]
  have c2: "\<forall>t. heartbeatTimer w = Some t \<longrightarrow> timers (disconnect w) t = None"
    using h by blast
  have c4: "\<not> shouldReconnect (world_of (emit B (JStr ''close'') ev Undefined (disconnect w))) \<longrightarrow>
      (\<forall>t. timers (world_of (on_close B ev (disconnect w))) t \<noteq> None \<longrightarrow>
           timers (world_of (on_close B ev (disconnect w))) t
             = timers (world_of (emit B (JStr ''close'') ev Undefined (disconnect w))) t)"
    using c by blast
  have c5: "(\<forall>cb args v. CallConnect \<notin> set (fst (B cb args v))) \<longrightarrow>
      \<not> shouldReconnect (world_of (emit B (JStr ''close'') ev Undefined (disconnect w)))"
    using emit_intent_cleared [of B "disconnect w" "JStr ''close''" ev Undefined] d(2) by blast
  have c7: "\<forall>t. heartbeatTimer w \<noteq> Some t \<longrightarrow> timers (disconnect w) t = timers w t"
    using k by blast
  have c8: "reachable B w \<longrightarrow>
      (\<forall>rid r. pendingAcks w rid = Some r \<longrightarrow>
         promises w (res_promise r) = Some Pending \<and>
         (\<exists>d. timers w (res_timer r) = Some (Timeout d (AckTimeout rid (res_promise r)))) \<and>
         timers (disconnect w) (res_timer r) = timers w (res_timer r) \<and>
         promises (fire (res_timer r) (disconnect w)) (res_promise r)
           = Some (Rejected (JError ''Ack timeout'')) \<and>
         pendingAcks (fire (res_timer r) (disconnect w)) rid = None)"
    using p by blast
  show ?thesis
    by (intro conjI; fact)
qed

theorem disconnect_keeps_pending_witness:
  "heartbeatTimer awaiting_world = Some 1 \<and> timers (disconnect awaiting_world) 1 = None \<and>
   (\<forall>cb args v. CallConnect \<notin> set (fst (quiet cb args v))) \<and>
   \<not> shouldReconnect (world_of (emit quiet (JStr ''close'') JNull Undefined (disconnect awaiting_world))) \<and>
   timers (world_of (on_close quiet JNull (disconnect awaiting_world))) 2
     = Some (Timeout 100 (AckTimeout ''1'' 0)) \<and>
   reachable quiet awaiting_world \<and>
   pendingAcks awaiting_world ''1'' = Some \<lparr>res_timer = 2, res_promise = 0\<rparr> \<and>
   heartbeatTimer awaiting_world \<noteq> Some 2 \<and>
   timers (disconnect awaiting_world) 2 = Some (Timeout 100 (AckTimeout ''1'' 0)) \<and>
   promises (fire 2 (disconnect awaiting_world)) 0 = Some (Rejected (JError ''Ack timeout'')) \<and>
   pendingAcks (fire 2 (disconnect awaiting_world)) ''1'' = None"
proof -
  have e: "emit quiet (JStr ''close'') JNull Undefined (disconnect awaiting_world)
             = Done (disconnect awaiting_world)"
    by (rule emit_no_listeners)
       (simp_all add: disconnect_def stopHeartbeat_def assign_ws_def Let_def awaiting_world_fields
          split: option.splits)
  note T = disconnect_keeps_pending [of awaiting_world quiet JNull]
  from T have a: "timers (disconnect awaiting_world) t = None" if "heartbeatTimer awaiting_world = Some t" for t
    using that by blast
  from T have b: "timers (world_of (on_close quiet JNull (disconnect awaiting_world))) t
       = timers (disconnect awaiting_world) t"
    if "timers (world_of (on_close quiet JNull (disconnect awaiting_world))) t \<noteq> None" for t
    using that by (simp add: e disconnect_fields(2))
  from T reachable_examples(3) have c: "pendingAcks awaiting_world rid = Some r \<longrightarrow>
      timers (disconnect awaiting_world) (res_timer r) = timers awaiting_world (res_timer r) \<and>
      promises (fire (res_timer r) (disconnect awaiting_world)) (res_promise r)
        = Some (Rejected (JError ''Ack timeout'')) \<and>
      pendingAcks (fire (res_timer r) (disconnect awaiting_world)) rid = None" for rid r
    by blast
  have n: "timers (world_of (on_close quiet JNull (disconnect awaiting_world))) 2 \<noteq> None"
    by (simp add: on_close_world e disconnect_fields stopHeartbeat_def assign_ws_def
        awaiting_world_fields Let_def)
  show ?thesis
    using a [of 1] b [OF n] c [of "''1''" "\<lparr>res_timer = 2, res_promise = 0\<rparr>"] reachable_examples(3)
    by (simp add: e awaiting_world_fields disconnect_fields(2) quiet_def)
qed

subsection \<open>Request ids\<close>

text \<open>
  C10. Every \<open>send\<close> over an open socket, whatever its options, transmits one object
  whose \<open>request_id\<close> is the decimal rendering of the counter and whose other properties
  are those copied from the command; no other counter value has that rendering, and in
  every run no pending acknowledgement has that request id; the counter grows by one (it
  is below \<open>2^53\<close>, where a JavaScript number still counts); the objects of the callers
  are unchanged. Unless \<open>awaitAck\<close> is true the returned promise is resolved, and the
  pending acknowledgements, the timers and the promises are unchanged.
\<close>

theorem send_assigns_request_id:
  assumes "ws w = Some sock" "readyState sock = OPEN" "nextRequestId w < 2 ^ 53"
  shows "\<exists>packet.
           ws (snd (send a options w)) = Some (sock\<lparr>outbox := outbox sock @ [JObj packet]\<rparr>) \<and>
           map_of packet ''request_id'' = Some (JStr (String_of (nextRequestId w))) \<and>
           (\<forall>k. k \<noteq> ''request_id'' \<longrightarrow> map_of packet k = map_of (spread (store w a)) k) \<and>
           nextRequestId (snd (send a options w)) = nextRequestId w + 1 \<and>
           (\<forall>m. m \<noteq> nextRequestId w \<longrightarrow> String_of m \<noteq> String_of (nextRequestId w)) \<and>
           (reachable B w \<longrightarrow> pendingAcks w (String_of (nextRequestId w)) = None) \<and>
           store (snd (send a options w)) = store w \<and>
           (awaitAck options \<noteq> Some True \<longrightarrow>
              fst (send a options w) = Resolved Undefined \<and>
              pendingAcks (snd (send a options w)) = pendingAcks w \<and>
              timers (snd (send a options w)) = timers w \<and>
              promises (snd (send a options w)) = promises w)"
proof -
  let ?packet = "AList.update ''request_id'' (JStr (String_of (nextRequestId w))) (spread (store w a))"
  have 1: "ws (snd (send a options w)) = Some (sock\<lparr>outbox := outbox sock @ [JObj ?packet]\<rparr>)"
    using assms(1,2)
    by (simp add: send_def Let_def transmit_def new_promise_def set_timeout_def split: prod.splits)
  have 2: "map_of ?packet ''request_id'' = Some (JStr (String_of (nextRequestId w)))"
    by (simp add: update_conv')
  have 3: "\<forall>k. k \<noteq> ''request_id'' \<longrightarrow> map_of ?packet k = map_of (spread (store w a)) k"
    by (simp add: update_conv')
  have 4: "nextRequestId (snd (send a options w)) = nextRequestId w + 1"
    using assms
    by (simp add: send_def Let_def js_incr_def new_promise_def set_timeout_def split: prod.splits)
  have 5: "\<forall>m. m \<noteq> nextRequestId w \<longrightarrow> String_of m \<noteq> String_of (nextRequestId w)"
    using String_of_inj by blast
  have 6: "store (snd (send a options w)) = store w"
    by (simp add: send_def Let_def new_promise_def set_timeout_def split: option.splits prod.splits)
  have 7: "fst (send a options w) = Resolved Undefined \<and>
              pendingAcks (snd (send a options w)) = pendingAcks w \<and>
              timers (snd (send a options w)) = timers w \<and>
              promises (snd (send a options w)) = promises w"
    if "awaitAck options \<noteq> Some True"
  proof -
    from that have "\<not> (case awaitAck options of None \<Rightarrow> False | Some b \<Rightarrow> b)"
      by (cases "awaitAck options") auto
    then show ?thesis using assms(1,2) by (simp add: send_def Let_def)
  qed
  have 8: "reachable B w \<longrightarrow> pendingAcks w (String_of (nextRequestId w)) = None"
    using reachable_fresh_id [OF _ assms(3)] by blast
  from 1 2 3 4 5 6 7 8 show ?thesis by blast
qed

theorem send_assigns_request_id_witness:
  "ws tagged_world = Some open_socket \<and> readyState open_socket = OPEN \<and>
   nextRequestId tagged_world < 2 ^ 53 \<and> reachable quiet tagged_world \<and>
   pendingAcks tagged_world (String_of (nextRequestId tagged_world)) = None \<and>
   send 0 forget_opts tagged_world =
     (Resolved Undefined,
      tagged_world\<lparr>nextRequestId := 2,
        ws := Some (open_socket\<lparr>outbox :=
                [JObj [(''request_id'', JStr ''1''), (''type'', JStr ''command'')]]\<rparr>)\<rparr>)"
proof -
  have h: "ws tagged_world = Some open_socket" "readyState open_socket = OPEN"
    "nextRequestId tagged_world < 2 ^ 53"
    by (simp_all add: tagged_world_def open_world_eq idle_world_fields open_socket_def)
  have v: "send 0 forget_opts tagged_world =
     (Resolved Undefined,
      tagged_world\<lparr>nextRequestId := 2,
        ws := Some (open_socket\<lparr>outbox :=
                [JObj [(''request_id'', JStr ''1''), (''type'', JStr ''command'')]]\<rparr>)\<rparr>)"
    by (simp add: send_def tagged_world_def open_world_eq idle_world_fields open_socket_def
        forget_opts_def tagged_command_def js_incr_def transmit_def String_of_1 Let_def)
  from send_assigns_request_id [OF h, of 0 forget_opts quiet] reachable_examples(4)
  have "pendingAcks tagged_world (String_of (nextRequestId tagged_world)) = None"
    by blast
  with h v reachable_examples(4) show ?thesis
    by simp
qed

end
